theory Spec2Isabelle
  imports Complex_Main "HOL-Library.Multiset"
begin

section \<open>Fourier-transform property checks of ActividadFormativa2SyS.py\<close>

text \<open>
  The script works on numpy arrays of IEEE binary64 numbers. The embedding reads a double
  as the \<^typ>\<open>real\<close> it denotes and a complex double as a \<^typ>\<open>complex\<close>. Where the
  rounding of a float operation decides a discrete outcome (the samples of the grid that
  \<open>np.arange\<close> builds, the bounds a sample is compared with, the quotient that
  \<open>int()\<close> truncates) the operation is followed by \<open>float64\<close>, the rounding to the
  nearest double; the Fourier sums and the error figures of the verifiers are taken in
  exact arithmetic and say nothing about rounding. A one-dimensional array is a list,
  with its dtype where the script depends on it. The library calls (\<open>np.fft.fft\<close>,
  \<open>np.fft.fftfreq\<close>, \<open>np.argsort\<close>, \<open>np.roll\<close>, \<open>np.interp\<close>, \<open>np.arange\<close>,
  \<open>np.zeros_like\<close>) are modelled after numpy's documentation and its reference
  implementation; the functions of the script are translated line by line on top of
  them. Printing and plotting are left out: a verifier returns the error figure that the
  script prints.
\<close>

subsection \<open>Errors\<close>

text \<open>
  \<open>ValueError\<close> is what numpy raises for an empty FFT input, for shapes that do not
  broadcast, for \<open>np.max\<close> of an empty array and for \<open>np.interp\<close> on mismatched or empty
  sample arrays. \<open>ZeroDivisionError\<close> is Python's float division by zero.
  \<open>NonFinite\<close> stands for a result that numpy computes as \<open>inf\<close> or \<open>nan\<close>
  (division of a numpy scalar by zero), which no real number represents.
\<close>

datatype error = ValueError | ZeroDivisionError | NonFinite

definition bind_err :: "error + 'a \<Rightarrow> ('a \<Rightarrow> error + 'b) \<Rightarrow> error + 'b" where
  "bind_err m f = (case m of Inl e \<Rightarrow> Inl e | Inr x \<Rightarrow> f x)"

subsection \<open>Doubles and arrays\<close>

text \<open>
  \<open>float64 x\<close> is the double nearest to \<open>x\<close>, ties to the even significand: \<open>x\<close> is
  measured in units of \<open>2^(e - 52)\<close>, where \<open>e\<close> is the binary exponent of \<open>x\<close> and at
  least \<open>-1022\<close> (below that the doubles are subnormal and equally spaced), and the
  number of units is rounded to an integer. The model has no largest double: a result
  beyond the range of the doubles, which the machine turns into \<open>inf\<close>, is outside it.
\<close>

definition rhe :: "real \<Rightarrow> int" where
  "rhe z = (let f = \<lfloor>z\<rfloor>; r = z - of_int f
            in if r < 1 / 2 then f else if 1 / 2 < r then f + 1
               else if even f then f else f + 1)"

definition ulp_exp :: "real \<Rightarrow> int" where
  "ulp_exp x = max \<lfloor>log 2 \<bar>x\<bar>\<rfloor> (- 1022) - 52"

definition float64 :: "real \<Rightarrow> real" where
  "float64 x = (if x = 0 then 0
                else of_int (rhe (x / 2 powi ulp_exp x)) * 2 powi ulp_exp x)"

text \<open>Python's \<open>int(x)\<close> on a float, and the C cast of a double to an integer, truncate
  towards zero.\<close>

definition py_int :: "real \<Rightarrow> int" where
  "py_int x = (if 0 \<le> x then \<lfloor>x\<rfloor> else \<lceil>x\<rceil>)"

text \<open>
  A one-dimensional array with its dtype: \<open>int64\<close> or \<open>float64\<close>. \<open>as_float\<close> is the
  conversion numpy applies to an integer array that meets a float scalar.
\<close>

datatype ndarray = IntArr "int list" | FloatArr "real list"

fun as_float :: "ndarray \<Rightarrow> real list" where
  "as_float (IntArr xs) = map (\<lambda>k. float64 (real_of_int k)) xs"
| "as_float (FloatArr xs) = xs"

subsection \<open>Signal generators\<close>

text \<open>
  \<open>np.zeros_like(t)\<close> has the shape and the dtype of \<open>t\<close>. The masked assignment
  \<open>senal[mask] = amplitud\<close> stores the amplitude in a float array and its cast to an
  integer, truncated towards zero, in an integer array. The mask compares every sample
  with the two bounds as the doubles that \<open>centro - ancho/2\<close> and \<open>centro + ancho/2\<close>
  evaluate to.
\<close>

fun zeros_like :: "ndarray \<Rightarrow> ndarray" where
  "zeros_like (IntArr xs) = IntArr (replicate (length xs) 0)"
| "zeros_like (FloatArr xs) = FloatArr (replicate (length xs) 0)"

fun mask_assign :: "bool list \<Rightarrow> real \<Rightarrow> ndarray \<Rightarrow> ndarray" where
  "mask_assign sel v (IntArr xs) = IntArr (map (\<lambda>(m, x). if m then py_int v else x) (zip sel xs))"
| "mask_assign sel v (FloatArr xs) = FloatArr (map (\<lambda>(m, x). if m then v else x) (zip sel xs))"

definition generar_pulso_rectangular :: "ndarray \<Rightarrow> real \<Rightarrow> real \<Rightarrow> real \<Rightarrow> ndarray" where
  "generar_pulso_rectangular t ancho amplitud centro =
     (let senal = zeros_like t;
          lo = float64 (centro - float64 (ancho / 2));
          hi = float64 (centro + float64 (ancho / 2));
          sel = map (\<lambda>\<tau>. \<tau> \<ge> lo \<and> \<tau> \<le> hi) (as_float t)
      in mask_assign sel amplitud senal)"

definition generar_escalon :: "ndarray \<Rightarrow> real \<Rightarrow> real \<Rightarrow> ndarray" where
  "generar_escalon t amplitud inicio =
     (let senal = zeros_like t;
          sel = map (\<lambda>\<tau>. \<tau> \<ge> inicio) (as_float t)
      in mask_assign sel amplitud senal)"

text \<open>
  \<open>np.arange(start, stop, step)\<close> on floats, as numpy computes it: the length is the
  ceiling of the double \<open>(stop - start) / step\<close>; the first two samples are \<open>start\<close> and
  the double \<open>start + step\<close>; with \<open>delta\<close> the double difference of these two, sample
  \<open>i\<close> from the third on is \<open>start + i * delta\<close>, the product and the sum each rounded.
\<close>

definition arange :: "real \<Rightarrow> real \<Rightarrow> real \<Rightarrow> real list" where
  "arange start stop step =
     (let len = nat \<lceil>float64 (float64 (stop - start) / step)\<rceil>;
          next = float64 (start + step);
          delta = float64 (next - start)
      in map (\<lambda>i. if i = 0 then start else if i = 1 then next
                   else float64 (start + float64 (real i * delta)))
             [0 ..< len])"

subsection \<open>numpy primitives\<close>

text \<open>
  \<open>np.fft.fft(a)\<close> is, by its documentation, \<open>A[k] = sum_m a[m] * exp(-2 pi i m k / n)\<close>
  for \<open>k = 0 .. n-1\<close>; an empty input raises ValueError.
\<close>

definition fft :: "complex list \<Rightarrow> error + complex list" where
  "fft a =
     (let n = length a
      in if n = 0 then Inl ValueError
         else Inr (map (\<lambda>k. sum_list (map (\<lambda>m. a ! m *
                     exp (- (2 * of_real pi * \<i> * of_nat m * of_nat k / of_nat n))) [0 ..< n]))
                   [0 ..< n]))"

text \<open>
  \<open>np.fft.fftfreq(n, d)\<close>, as numpy writes it:
  \<^verbatim>\<open>
    val = 1.0 / (n * d)
    results = empty(n, int)
    N = (n-1)//2 + 1
    results[:N] = arange(0, N, dtype=int)
    results[N:] = arange(-(n//2), 0, dtype=int)
    return results * val
  \<close>
  With Python floats, \<open>1.0 / (n * d)\<close> raises ZeroDivisionError when \<open>n * d\<close> is zero.
\<close>

definition fftfreq :: "nat \<Rightarrow> real \<Rightarrow> error + real list" where
  "fftfreq n d =
     (if real n * d = 0 then Inl ZeroDivisionError
      else let val = 1 / (real n * d);
               N = (int n - 1) div 2 + 1;
               results = [0 .. N - 1] @ [- (int n div 2) .. - 1]
           in Inr (map (\<lambda>r. real_of_int r * val) results))"

text \<open>
  \<open>np.argsort\<close> returns the indices that sort the array. Its default sort is not
  stable; the model sorts stably, which gives the same indices whenever the entries are
  pairwise distinct.
\<close>

definition argsort :: "real list \<Rightarrow> nat list" where
  "argsort xs = sort_key (\<lambda>i. xs ! i) [0 ..< length xs]"

text \<open>\<open>a[idx]\<close> for an index array \<open>idx\<close>.\<close>

definition take_idx :: "'a list \<Rightarrow> nat list \<Rightarrow> 'a list" where
  "take_idx a idx = map (\<lambda>i. a ! i) idx"

text \<open>
  An elementwise binary operation on two one-dimensional arrays, with numpy's
  broadcasting: equal lengths, or one operand of length one, or ValueError.
\<close>

definition broadcast :: "('a \<Rightarrow> 'b \<Rightarrow> 'c) \<Rightarrow> 'a list \<Rightarrow> 'b list \<Rightarrow> error + 'c list" where
  "broadcast f xs ys =
     (if length xs = length ys then Inr (map (\<lambda>(x, y). f x y) (zip xs ys))
      else if length xs = 1 then Inr (map (\<lambda>y. f (hd xs) y) ys)
      else if length ys = 1 then Inr (map (\<lambda>x. f x (hd ys)) xs)
      else Inl ValueError)"

text \<open>\<open>np.max\<close>: the largest entry; ValueError on an empty array.\<close>

definition np_max :: "real list \<Rightarrow> error + real" where
  "np_max xs = (if xs = [] then Inl ValueError else Inr (Max (set xs)))"

text \<open>
  \<open>np.roll(a, shift)\<close> on a one-dimensional array, as numpy writes it: the shift is
  reduced modulo the length (\<open>shift %= n or 1\<close>), and the result is the last \<open>shift\<close>
  elements followed by the others (\<open>res[shift:] = a[:-shift]; res[:shift] = a[-shift:]\<close>).
\<close>

definition roll :: "'a list \<Rightarrow> int \<Rightarrow> 'a list" where
  "roll a shift =
     (let n = length a;
          sh = nat (shift mod int (if n = 0 then 1 else n))
      in drop (n - sh) a @ take (n - sh) a)"

text \<open>
  \<open>np.interp(x, xp, fp, left, right)\<close>. The documentation asks for an increasing
  \<open>xp\<close> and does not check it. The model follows the reference implementation: for each
  query, first the two range tests (\<open>key > xp[-1]\<close> gives \<open>right\<close>, then
  \<open>key < xp[0]\<close> gives \<open>left\<close>), then the search for the index \<open>j\<close> of the segment,
  then \<open>fp[j]\<close> at the last node or at an exact node and the line through nodes \<open>j\<close> and
  \<open>j+1\<close> otherwise. numpy finds \<open>j\<close> by the scan
  \<open>for (i = 1; i < len && key >= arr[i]; ++i); return i - 1\<close> up to four nodes and by
  bisection beyond; the model scans at every length. Scan and bisection return the same
  index on every monotone \<open>xp\<close> (on a strictly decreasing one with two or more nodes the
  range tests already decide every query), so the model is numpy's function on the
  inputs the script builds from an ordered grid. An empty \<open>xp\<close>, or \<open>fp\<close> of another
  length, raises ValueError.
\<close>

function linear_search :: "real \<Rightarrow> real list \<Rightarrow> nat \<Rightarrow> nat" where
  "linear_search key arr i =
     (if i < length arr \<and> key \<ge> arr ! i then linear_search key arr (Suc i) else i - 1)"
  by pat_completeness auto
termination
  by (relation "measure (\<lambda>(key, arr, i). length arr - i)") auto

declare linear_search.simps [simp del]

definition interp_one :: "real list \<Rightarrow> real list \<Rightarrow> real \<Rightarrow> real \<Rightarrow> real \<Rightarrow> real" where
  "interp_one xp fp left right x =
     (let n = length xp
      in if n = 1 then (if x < xp ! 0 then left else if x > xp ! 0 then right else fp ! 0)
         else if x > xp ! (n - 1) then right
         else if x < xp ! 0 then left
         else let j = linear_search x xp 1
              in if j = n - 1 then fp ! j
                 else if xp ! j = x then fp ! j
                 else (fp ! (j + 1) - fp ! j) / (xp ! (j + 1) - xp ! j) * (x - xp ! j) + fp ! j)"

definition np_interp :: "real list \<Rightarrow> real list \<Rightarrow> real list \<Rightarrow> real \<Rightarrow> real \<Rightarrow> error + real list" where
  "np_interp x xp fp left right =
     (if xp = [] then Inl ValueError
      else if length fp \<noteq> length xp then Inl ValueError
      else Inr (map (interp_one xp fp left right) x))"

subsection \<open>The transform\<close>

text \<open>
  \<open>calcular_transformada_fourier(senal_t, dt)\<close>: the FFT of the (real) signal times
  \<open>dt\<close>, the bin frequencies, and both re-ordered by the indices that sort the
  frequencies.
\<close>

definition calcular_transformada_fourier :: "real list \<Rightarrow> real \<Rightarrow> error + (real list \<times> complex list)" where
  "calcular_transformada_fourier senal_t dt =
     (let N = length senal_t
      in bind_err (fft (map complex_of_real senal_t)) (\<lambda>F.
           let espectro = map (\<lambda>z. z * complex_of_real dt) F
           in bind_err (fftfreq N dt) (\<lambda>frecuencias.
                let idx = argsort frecuencias
                in Inr (take_idx frecuencias idx, take_idx espectro idx))))"

subsection \<open>The property verifiers\<close>

text \<open>
  Each verifier returns the error figure it prints. The grid \<open>t\<close> is a parameter of all
  three, and only the scaling verifier reads it.
\<close>

definition verificar_linealidad :: "real list \<Rightarrow> real list \<Rightarrow> real list \<Rightarrow> real \<Rightarrow> error + real" where
  "verificar_linealidad t senal1 senal2 dt =
     (let a = 2; b = 3
      in bind_err (broadcast (+) (map (\<lambda>x. a * x) senal1) (map (\<lambda>x. b * x) senal2))
           (\<lambda>senal_combinada.
         bind_err (calcular_transformada_fourier senal1 dt) (\<lambda>(f1, espectro1).
         bind_err (calcular_transformada_fourier senal2 dt) (\<lambda>(f2, espectro2).
         bind_err (calcular_transformada_fourier senal_combinada dt)
           (\<lambda>(frecuencias, espectro_combinada).
         bind_err (broadcast (+) (map (\<lambda>z. complex_of_real a * z) espectro1)
                                 (map (\<lambda>z. complex_of_real b * z) espectro2))
           (\<lambda>espectro_lineal.
         bind_err (broadcast (-) espectro_combinada espectro_lineal) (\<lambda>dif.
         np_max (map cmod dif))))))))"

text \<open>
  The shifted signal of the time-shift verifier,
  \<open>np.roll(senal, int(desplazamiento/dt))\<close>: the quotient is a double, and \<open>int\<close>
  truncates it.
\<close>

definition senal_desplazada :: "real list \<Rightarrow> real \<Rightarrow> real \<Rightarrow> real list" where
  "senal_desplazada senal dt desplazamiento =
     roll senal (py_int (float64 (desplazamiento / dt)))"

definition verificar_desplazamiento_tiempo :: "real list \<Rightarrow> real list \<Rightarrow> real \<Rightarrow> real \<Rightarrow> error + real" where
  "verificar_desplazamiento_tiempo t senal dt desplazamiento =
     (if dt = 0 then Inl ZeroDivisionError
      else let desplazada = senal_desplazada senal dt desplazamiento
      in bind_err (calcular_transformada_fourier senal dt) (\<lambda>(frecuencias, espectro).
         bind_err (calcular_transformada_fourier desplazada dt) (\<lambda>(f2, espectro_desplazado).
         let factor_teorico =
               map (\<lambda>f. exp (- (2 * \<i>) * of_real pi * of_real f * of_real desplazamiento))
                   frecuencias
         in bind_err (broadcast (*) factor_teorico espectro) (\<lambda>espectro_teorico.
            bind_err (broadcast (-) espectro_desplazado espectro_teorico) (\<lambda>dif.
            np_max (map cmod dif))))))"

definition verificar_escalamiento_frecuencia :: "real list \<Rightarrow> real list \<Rightarrow> real \<Rightarrow> real \<Rightarrow> error + real" where
  "verificar_escalamiento_frecuencia t senal dt factor =
     (let t_escalado = map (\<lambda>\<tau>. \<tau> * factor) t
      in bind_err (np_interp t t_escalado senal 0 0) (\<lambda>senal_escalada.
         bind_err (calcular_transformada_fourier senal dt) (\<lambda>(frecuencias, espectro).
         bind_err (calcular_transformada_fourier senal_escalada dt)
           (\<lambda>(f2, espectro_escalado).
         let frecuencias_teoricas = map (\<lambda>f. f * factor) frecuencias
         in if factor = 0 then Inl NonFinite
            else bind_err (np_interp frecuencias frecuencias_teoricas (map cmod espectro) 0 0)
              (\<lambda>interpolado.
            let espectro_teorico = map (\<lambda>v. (1 / \<bar>factor\<bar>) * v) interpolado
            in bind_err (broadcast (-) (map cmod espectro_escalado) espectro_teorico) (\<lambda>dif.
               np_max (map abs dif)))))))"

subsection \<open>The main scenario\<close>

text \<open>
  The grid and the pulse of \<open>main\<close>: \<open>dt = 0.01\<close>, \<open>t = np.arange(-5, 5, dt)\<close>,
  \<open>pulso = generar_pulso_rectangular(t, ancho=2, amplitud=1, centro=0)\<close>. The literal
  \<open>0.01\<close> is the double nearest to \<open>1/100\<close>, and the grid is built from that double; the
  transform, taken in exact arithmetic, is given the decimal value.
\<close>

definition main_dt :: real where
  "main_dt = 1 / 100"

definition main_t :: "real list" where
  "main_t = arange (- 5) 5 (float64 main_dt)"

definition main_pulso :: "real list" where
  "main_pulso = as_float (generar_pulso_rectangular (FloatArr main_t) 2 1 0)"

text \<open>The spacing of that grid: the double \<open>(-5 + 0.01) - (-5)\<close>.\<close>

definition main_delta :: real where
  "main_delta = 5629499534213 / 2 ^ 49"

subsection \<open>Notions of the specification\<close>

text \<open>
  The frequency the specification gives to bin \<open>k\<close> of \<open>N\<close>: \<open>k/(N dt)\<close> below the
  middle, \<open>(k - N)/(N dt)\<close> from the middle on.
\<close>

definition bin_freq :: "nat \<Rightarrow> real \<Rightarrow> nat \<Rightarrow> real" where
  "bin_freq N dt k = (if 2 * k < N then real k / (real N * dt) else (real k - real N) / (real N * dt))"

text \<open>The discrete Fourier sum of the specification at bin \<open>k\<close>.\<close>

definition dft :: "complex list \<Rightarrow> nat \<Rightarrow> complex" where
  "dft a k = (\<Sum>m<length a. a ! m * exp (- (2 * of_real pi * \<i> * of_nat m * of_nat k / of_nat (length a))))"

text \<open>The order in which the transform returns the bins.\<close>

definition ctf_idx :: "nat \<Rightarrow> real \<Rightarrow> nat list" where
  "ctf_idx N dt = argsort (map (bin_freq N dt) [0 ..< N])"

text \<open>The twiddle factor \<open>exp(-2 pi i j / n)\<close> of the discrete Fourier sum.\<close>

definition twiddle :: "nat \<Rightarrow> int \<Rightarrow> complex" where
  "twiddle n j = cis (- (2 * pi * real_of_int j / real n))"

text \<open>
  The prediction of the frequency-scaling check in the words of the specification: the
  piecewise linear interpolant through the nodes \<open>(xp[i], fp[i])\<close>, taken in ascending
  order of \<open>xp\<close>, and zero outside the range of the nodes. The error of the check is the
  largest absolute difference between the magnitude of the transform of the scaled signal
  and \<open>1/|a|\<close> times the interpolant of the magnitude of the original spectrum over the
  frequency axis multiplied by \<open>a\<close>.
\<close>

fun interp_sorted :: "(real \<times> real) list \<Rightarrow> real \<Rightarrow> real" where
  "interp_sorted [] x = 0"
| "interp_sorted [(u, v)] x = (if x = u then v else 0)"
| "interp_sorted ((u, v) # (u', v') # ps) x =
     (if x < u then 0
      else if x = u then v
      else if x < u' then v + (v' - v) * (x - u) / (u' - u)
      else interp_sorted ((u', v') # ps) x)"

definition lin_interp :: "real list \<Rightarrow> real list \<Rightarrow> real \<Rightarrow> real" where
  "lin_interp xp fp x = interp_sorted (sort_key fst (zip xp fp)) x"

definition escalamiento_prediccion :: "real list \<Rightarrow> complex list \<Rightarrow> real \<Rightarrow> real list" where
  "escalamiento_prediccion frecuencias espectro a =
     map (\<lambda>f. (1 / \<bar>a\<bar>) * lin_interp (map (\<lambda>g. g * a) frecuencias) (map cmod espectro) f)
         frecuencias"

definition escalamiento_error_spec :: "real list \<Rightarrow> real list \<Rightarrow> real \<Rightarrow> real \<Rightarrow> error + real" where
  "escalamiento_error_spec t senal dt a =
     bind_err (np_interp t (map (\<lambda>\<tau>. \<tau> * a) t) senal 0 0) (\<lambda>senal_escalada.
     bind_err (calcular_transformada_fourier senal dt) (\<lambda>(frecuencias, espectro).
     bind_err (calcular_transformada_fourier senal_escalada dt) (\<lambda>(f2, espectro_escalado).
     if a = 0 then Inl NonFinite
     else np_max (map (\<lambda>(z, p). \<bar>cmod z - p\<bar>)
                      (zip espectro_escalado (escalamiento_prediccion frecuencias espectro a))))))"

subsection \<open>Bins and order of the transform\<close>

lemma fftfreq_results_nth:
  assumes "0 < n" "k < n"
  shows "([0 .. (int n - 1) div 2] @ [- (int n div 2) .. - 1]) ! k = (if 2 * k < n then int k else int k - int n)"
    and "length ([0 .. (int n - 1) div 2] @ [- (int n div 2) .. - 1]) = n"
proof -
  have len1: "length [0 .. (int n - 1) div 2] = nat ((int n - 1) div 2 + 1)" by simp
  show "length ([0 .. (int n - 1) div 2] @ [- (int n div 2) .. - 1]) = n"
    using assms by (simp; linarith)
  show "([0 .. (int n - 1) div 2] @ [- (int n div 2) .. - 1]) ! k = (if 2 * k < n then int k else int k - int n)"
  proof (cases "2 * k < n")
    case True
    then have "int k \<le> (int n - 1) div 2" by linarith
    moreover from this have "k < nat ((int n - 1) div 2 + 1)" by linarith
    ultimately show ?thesis using True by (simp add: nth_append)
  next
    case False
    then have "\<not> int k \<le> (int n - 1) div 2" by linarith
    then have k1: "\<not> k < nat ((int n - 1) div 2 + 1)" by linarith
    have "[- (int n div 2) .. - 1] ! (k - nat ((int n - 1) div 2 + 1)) = - (int n div 2) + int (k - nat ((int n - 1) div 2 + 1))"
      using assms k1 by (intro nth_upto) linarith
    also have "\<dots> = int k - int n" using assms k1 by linarith
    finally show ?thesis using False k1 by (simp add: nth_append)
  qed
qed

lemma fftfreq_eq:
  assumes "0 < n" "d \<noteq> 0"
  shows "fftfreq n d = Inr (map (bin_freq n d) [0 ..< n])"
proof -
  let ?res = "[0 .. (int n - 1) div 2] @ [- (int n div 2) .. - 1]"
  have "map (\<lambda>r. real_of_int r * (1 / (real n * d))) ?res = map (bin_freq n d) [0 ..< n]"
  proof (rule nth_equalityI)
    show "length (map (\<lambda>r. real_of_int r * (1 / (real n * d))) ?res) = length (map (bin_freq n d) [0 ..< n])"
      using fftfreq_results_nth(2)[OF assms(1)] by simp
  next
    fix i assume "i < length (map (\<lambda>r. real_of_int r * (1 / (real n * d))) ?res)"
    then have i: "i < n" using fftfreq_results_nth(2)[OF assms(1)] by simp
    then have il: "i < length ?res" using fftfreq_results_nth(2)[OF assms(1)] by simp
    show "map (\<lambda>r. real_of_int r * (1 / (real n * d))) ?res ! i = map (bin_freq n d) [0 ..< n] ! i"
      using i fftfreq_results_nth(1)[OF assms(1) i] 
      by (simp only: nth_map[OF il]) (simp add: bin_freq_def)
  qed
  then show ?thesis using assms by (simp add: fftfreq_def Let_def)
qed

lemma sum_list_upt_conv_sum: "sum_list (map f [0 ..< n]) = sum f {..<n}"
  by (simp add: interv_sum_list_conv_sum_set_nat atLeast0LessThan)

lemma fft_eq: "a \<noteq> [] \<Longrightarrow> fft a = Inr (map (dft a) [0 ..< length a])"
  by (simp add: fft_def dft_def sum_list_upt_conv_sum Let_def)

lemma argsort_mset: "mset (argsort xs) = mset [0 ..< length xs]"
  by (simp add: argsort_def)

lemma argsort_sorted: "sorted (map (\<lambda>i. xs ! i) (argsort xs))"
  by (simp add: argsort_def)

lemma argsort_length: "length (argsort xs) = length xs"
  by (simp add: argsort_def)

lemma argsort_set: "set (argsort xs) = {..<length xs}"
  by (auto simp add: argsort_def)

lemma argsort_distinct: "distinct (argsort xs)"
  by (simp add: argsort_def)

lemma ctf_idx_mset: "mset (ctf_idx N dt) = mset [0 ..< N]"
  by (simp add: ctf_idx_def argsort_mset)

lemma ctf_idx_set: "set (ctf_idx N dt) = {..<N}"
  by (simp add: ctf_idx_def argsort_set)

lemma ctf_idx_length: "length (ctf_idx N dt) = N"
  by (simp add: ctf_idx_def argsort_length)

lemma ctf_idx_nth_less: "j < N \<Longrightarrow> ctf_idx N dt ! j < N"
  using ctf_idx_set[of N dt] ctf_idx_length[of N dt] nth_mem[of j "ctf_idx N dt"] by auto

lemma take_idx_map: "set idx \<subseteq> {..<n} \<Longrightarrow> take_idx (map f [0 ..< n]) idx = map f idx"
  by (auto simp add: take_idx_def)

lemma calcular_eq:
  assumes "s \<noteq> []" "dt \<noteq> 0"
  shows "calcular_transformada_fourier s dt =
           Inr (map (bin_freq (length s) dt) (ctf_idx (length s) dt),
                map (\<lambda>k. dft (map complex_of_real s) k * complex_of_real dt) (ctf_idx (length s) dt))"
proof -
  let ?N = "length s"
  have N: "0 < ?N" using assms by simp
  have F: "fft (map complex_of_real s) = Inr (map (dft (map complex_of_real s)) [0 ..< ?N])"
    using fft_eq[of "map complex_of_real s"] assms by simp
  have Q: "fftfreq ?N dt = Inr (map (bin_freq ?N dt) [0 ..< ?N])"
    using fftfreq_eq[OF N assms(2)] .
  have sub: "set (ctf_idx ?N dt) \<subseteq> {..<?N}" by (simp add: ctf_idx_set)
  have E: "map (\<lambda>z. z * complex_of_real dt) (map (dft (map complex_of_real s)) [0 ..< ?N])
           = map (\<lambda>k. dft (map complex_of_real s) k * complex_of_real dt) [0 ..< ?N]"
    by simp
  have A: "take_idx (map (bin_freq ?N dt) [0 ..< ?N]) (ctf_idx ?N dt) = map (bin_freq ?N dt) (ctf_idx ?N dt)"
    by (rule take_idx_map[OF sub])
  have B: "take_idx (map (\<lambda>k. dft (map complex_of_real s) k * complex_of_real dt) [0 ..< ?N]) (ctf_idx ?N dt)
           = map (\<lambda>k. dft (map complex_of_real s) k * complex_of_real dt) (ctf_idx ?N dt)"
    by (rule take_idx_map[OF sub])
  show ?thesis
    unfolding calcular_transformada_fourier_def Let_def F Q bind_err_def sum.case E
      ctf_idx_def[symmetric] A B ..
qed

lemma bin_freq_inj:
  assumes "dt \<noteq> 0"
  shows "inj_on (bin_freq N dt) {..<N}"
proof (rule inj_onI)
  fix j k assume j: "j \<in> {..<N}" and k: "k \<in> {..<N}" and e: "bin_freq N dt j = bin_freq N dt k"
  have N: "real N * dt \<noteq> 0" using j assms by auto
  let ?z = "\<lambda>i. if 2 * i < N then real i else real i - real N"
  have "?z j / (real N * dt) = ?z k / (real N * dt)"
    using e by (simp add: bin_freq_def split: if_splits)
  then have "?z j = ?z k" using N by simp
  then show "j = k" using j k by (auto split: if_splits)
qed

lemma ctf_freqs_strict:
  assumes "dt \<noteq> 0"
  shows "sorted_wrt (<) (map (bin_freq N dt) (ctf_idx N dt))"
proof -
  have e: "map (\<lambda>i. map (bin_freq N dt) [0 ..< N] ! i) (ctf_idx N dt) = map (bin_freq N dt) (ctf_idx N dt)"
    using ctf_idx_set[of N dt] by (intro map_cong) auto
  have "sorted (map (\<lambda>i. map (bin_freq N dt) [0 ..< N] ! i) (ctf_idx N dt))"
    unfolding ctf_idx_def by (rule argsort_sorted)
  then have s: "sorted (map (bin_freq N dt) (ctf_idx N dt))"
    by (simp only: e)
  have "distinct (ctf_idx N dt)" by (simp add: ctf_idx_def argsort_distinct)
  then have d: "distinct (map (bin_freq N dt) (ctf_idx N dt))"
    using bin_freq_inj[OF assms, of N] by (simp add: distinct_map ctf_idx_set)
  show ?thesis using s d by (simp add: strict_sorted_iff)
qed

text \<open>
  Claim C1. For a non-empty signal of length \<open>N\<close> and a step \<open>dt > 0\<close> the transform
  returns, in some order \<open>p\<close> of the bins \<open>0 .. N-1\<close> (the re-sorting), for each bin
  \<open>k\<close> the frequency \<open>k/(N dt)\<close> when \<open>k < N/2\<close> and \<open>(k - N)/(N dt)\<close> otherwise,
  together with the value \<open>dt * sum_n signal[n] * exp(-2 pi i k n / N)\<close>.
\<close>

theorem C1_transform_bins:
  assumes "s \<noteq> []" and "0 < dt"
  shows "\<exists>p. mset p = mset [0 ..< length s] \<and>
           calcular_transformada_fourier s dt =
             Inr (map (\<lambda>k. if real k < real (length s) / 2
                            then real k / (real (length s) * dt)
                            else (real k - real (length s)) / (real (length s) * dt)) p,
                  map (\<lambda>k. complex_of_real dt *
                         (\<Sum>n<length s. complex_of_real (s ! n) *
                            exp (- (2 * of_real pi * \<i> * of_nat n * of_nat k / of_nat (length s))))) p)"
proof -
  let ?N = "length s" and ?p = "ctf_idx (length s) dt"
  have a: "map (bin_freq ?N dt) ?p = map (\<lambda>k. if real k < real ?N / 2
                            then real k / (real ?N * dt)
                            else (real k - real ?N) / (real ?N * dt)) ?p"
    by (rule map_cong) (auto simp add: bin_freq_def)
  have b: "map (\<lambda>k. dft (map complex_of_real s) k * complex_of_real dt) ?p =
           map (\<lambda>k. complex_of_real dt *
                         (\<Sum>n<?N. complex_of_real (s ! n) *
                            exp (- (2 * of_real pi * \<i> * of_nat n * of_nat k / of_nat ?N)))) ?p"
    by (rule map_cong) (simp_all add: dft_def mult.commute)
  have "calcular_transformada_fourier s dt =
           Inr (map (bin_freq ?N dt) ?p, map (\<lambda>k. dft (map complex_of_real s) k * complex_of_real dt) ?p)"
    using calcular_eq[of s dt] assms by simp
  then show ?thesis unfolding a b using ctf_idx_mset[of ?N dt] by blast
qed

theorem C1_transform_bins_witness:
  "[1, 2] \<noteq> ([] :: real list) \<and> (0 :: real) < 1 \<and>
   (\<exists>p. mset p = mset [0 ..< length [1, 2 :: real]] \<and>
           calcular_transformada_fourier [1, 2] 1 =
             Inr (map (\<lambda>k. if real k < real (length [1, 2 :: real]) / 2
                            then real k / (real (length [1, 2 :: real]) * 1)
                            else (real k - real (length [1, 2 :: real])) / (real (length [1, 2 :: real]) * 1)) p,
                  map (\<lambda>k. complex_of_real 1 *
                         (\<Sum>n<length [1, 2 :: real]. complex_of_real ([1, 2] ! n) *
                            exp (- (2 * of_real pi * \<i> * of_nat n * of_nat k / of_nat (length [1, 2 :: real]))))) p))"
  using C1_transform_bins [of "[1, 2]" 1] by simp

lemma perm_map_nth:
  assumes "mset p = mset [0 ..< length xs]"
  shows "mset (map (\<lambda>i. xs ! i) p) = mset xs"
proof -
  have "mset (map (\<lambda>i. xs ! i) p) = image_mset (\<lambda>i. xs ! i) (mset p)" by simp
  also have "\<dots> = mset (map (\<lambda>i. xs ! i) [0 ..< length xs])" unfolding assms by simp
  also have "\<dots> = mset xs" by (simp add: map_nth)
  finally show ?thesis .
qed

lemma zip_same_map: "zip (map f p) (map g p) = map (\<lambda>i. (f i, g i)) p"
  by (induction p) simp_all

text \<open>
  Claim C7. For a non-empty signal and a step \<open>dt > 0\<close>, with \<open>F\<close> the FFT of the
  signal and \<open>fr\<close> the bin frequencies before sorting: the returned frequencies are
  strictly ascending, both returned arrays are as long as the signal, one and the same
  permutation \<open>p\<close> of the bins gives the returned frequencies from \<open>fr\<close> and the
  returned spectrum from \<open>F * dt\<close>, and the returned (frequency, value) pairs are
  exactly the pairs of the unsorted transform.
\<close>

theorem C7_sorted_pairing:
  assumes "s \<noteq> []" and "0 < dt"
  shows "\<exists>F fr frecuencias espectro.
           fft (map complex_of_real s) = Inr F \<and>
           fftfreq (length s) dt = Inr fr \<and>
           calcular_transformada_fourier s dt = Inr (frecuencias, espectro) \<and>
           length frecuencias = length s \<and> length espectro = length s \<and>
           sorted_wrt (<) frecuencias \<and>
           (\<exists>p. mset p = mset [0 ..< length s] \<and>
                frecuencias = map (\<lambda>i. fr ! i) p \<and>
                espectro = map (\<lambda>i. F ! i * complex_of_real dt) p) \<and>
           mset (zip frecuencias espectro) = mset (zip fr (map (\<lambda>z. z * complex_of_real dt) F))"
proof -
  let ?N = "length s" and ?p = "ctf_idx (length s) dt"
  let ?F = "map (dft (map complex_of_real s)) [0 ..< ?N]"
  let ?fr = "map (bin_freq ?N dt) [0 ..< ?N]"
  let ?fs = "map (bin_freq ?N dt) ?p"
  let ?sp = "map (\<lambda>k. dft (map complex_of_real s) k * complex_of_real dt) ?p"
  have dt: "dt \<noteq> 0" and N: "0 < ?N" using assms by auto
  have 1: "fft (map complex_of_real s) = Inr ?F"
    using fft_eq[of "map complex_of_real s"] assms by simp
  have 2: "fftfreq ?N dt = Inr ?fr" by (rule fftfreq_eq[OF N dt])
  have 3: "calcular_transformada_fourier s dt = Inr (?fs, ?sp)"
    by (rule calcular_eq[OF assms(1) dt])
  have 4: "length ?fs = ?N" "length ?sp = ?N" by (simp_all add: ctf_idx_length)
  have 5: "sorted_wrt (<) ?fs" by (rule ctf_freqs_strict[OF dt])
  have sub: "\<And>i. i \<in> set ?p \<Longrightarrow> i < ?N" using ctf_idx_set[of ?N dt] by auto
  have 6: "?fs = map (\<lambda>i. ?fr ! i) ?p" by (rule map_cong) (simp_all add: sub)
  have 7: "?sp = map (\<lambda>i. ?F ! i * complex_of_real dt) ?p" by (rule map_cong) (simp_all add: sub)
  have z: "zip ?fs ?sp = map (\<lambda>i. zip ?fr (map (\<lambda>z. z * complex_of_real dt) ?F) ! i) ?p"
    unfolding zip_same_map by (rule map_cong) (simp_all add: sub)
  have 8: "mset (zip ?fs ?sp) = mset (zip ?fr (map (\<lambda>z. z * complex_of_real dt) ?F))"
    unfolding z by (rule perm_map_nth) (simp add: ctf_idx_mset)
  show ?thesis
    using 1 2 3 4 5 6 7 8 ctf_idx_mset[of ?N dt] by blast
qed

theorem C7_sorted_pairing_witness:
  "[1, 2] \<noteq> ([] :: real list) \<and> (0 :: real) < 1 \<and>
   (\<exists>F fr frecuencias espectro.
           fft (map complex_of_real [1, 2]) = Inr F \<and>
           fftfreq (length [1, 2 :: real]) 1 = Inr fr \<and>
           calcular_transformada_fourier [1, 2] 1 = Inr (frecuencias, espectro) \<and>
           length frecuencias = length [1, 2 :: real] \<and> length espectro = length [1, 2 :: real] \<and>
           sorted_wrt (<) frecuencias \<and>
           (\<exists>p. mset p = mset [0 ..< length [1, 2 :: real]] \<and>
                frecuencias = map (\<lambda>i. fr ! i) p \<and>
                espectro = map (\<lambda>i. F ! i * complex_of_real 1) p) \<and>
           mset (zip frecuencias espectro) = mset (zip fr (map (\<lambda>z. z * complex_of_real 1) F)))"
  using C7_sorted_pairing [of "[1, 2]" 1] by simp

subsection \<open>Circular shift\<close>

lemma roll_length: "length (roll a m) = length a"
  by (simp add: roll_def Let_def)

lemma roll_nth:
  assumes "j < length a"
  shows "roll a m ! j = a ! nat ((int j - m) mod int (length a))"
proof -
  let ?n = "length a"
  have n: "0 < ?n" using assms by (cases a) auto
  define sh where "sh = nat (m mod int ?n)"
  have sh: "sh < ?n" unfolding sh_def using n by (simp add: nat_less_iff)
  have shm: "int sh = m mod int ?n" unfolding sh_def using n by simp
  have r: "roll a m = drop (?n - sh) a @ take (?n - sh) a"
    using n by (simp add: roll_def Let_def sh_def)
  show ?thesis
  proof (cases "j < sh")
    case True
    have "(int j - m) mod int ?n = (int j - int sh) mod int ?n"
      unfolding shm by (simp add: mod_diff_right_eq)
    also have "\<dots> = (int j - int sh + int ?n) mod int ?n" by simp
    also have "\<dots> = int j - int sh + int ?n" using True sh by (intro mod_pos_pos_trivial) auto
    finally have "nat ((int j - m) mod int ?n) = ?n - sh + j" using True sh by linarith
    then show ?thesis using True sh by (simp add: r nth_append)
  next
    case False
    have "(int j - m) mod int ?n = (int j - int sh) mod int ?n"
      unfolding shm by (simp add: mod_diff_right_eq)
    also have "\<dots> = int j - int sh" using False assms by (intro mod_pos_pos_trivial) auto
    finally have "nat ((int j - m) mod int ?n) = j - sh" using False by linarith
    then show ?thesis using False sh assms by (simp add: r nth_append)
  qed
qed


subsection \<open>Twiddle factors\<close>

lemma twiddle_add: "twiddle n (i + j) = twiddle n i * twiddle n j"
  by (simp add: twiddle_def cis_mult add_divide_distrib ring_distribs)

lemma twiddle_0 [simp]: "twiddle n 0 = 1"
  by (simp add: twiddle_def)

lemma twiddle_multiple:
  assumes "0 < n"
  shows "twiddle n (int n * q) = 1"
proof -
  have "- (2 * pi * real_of_int (int n * q) / real n) = 2 * pi * real_of_int (- q)"
    using assms by simp
  then have "twiddle n (int n * q) = cis (2 * pi * real_of_int (- q))"
    by (simp only: twiddle_def)
  also have "\<dots> = 1" by (rule cis_multiple_2pi) simp
  finally show ?thesis .
qed

lemma twiddle_period: "0 < n \<Longrightarrow> twiddle n (j + int n * q) = twiddle n j"
  by (simp add: twiddle_add twiddle_multiple)

lemma twiddle_mod:
  assumes "0 < n"
  shows "twiddle n (j mod int n) = twiddle n j"
proof -
  have "j = j mod int n + int n * (j div int n)" by simp
  then have "twiddle n j = twiddle n (j mod int n + int n * (j div int n))" by simp
  also have "\<dots> = twiddle n (j mod int n)" by (rule twiddle_period[OF assms])
  finally show ?thesis by simp
qed

lemma twiddle_cong:
  assumes "0 < n" "i mod int n = j mod int n"
  shows "twiddle n i = twiddle n j"
  using twiddle_mod[OF assms(1), of i] twiddle_mod[OF assms(1), of j] assms(2) by simp

lemma twiddle_exp:
  "exp (- (2 * of_real pi * \<i> * of_nat m * of_nat k / of_nat n)) = twiddle n (int m * int k)"
proof -
  have "\<i> * complex_of_real (- (2 * pi * real_of_int (int m * int k) / real n))
        = - (2 * of_real pi * \<i> * of_nat m * of_nat k / of_nat n)"
    by simp
  then show ?thesis by (simp only: twiddle_def cis_conv_exp)
qed

lemma twiddle_power: "twiddle n d ^ k = twiddle n (d * int k)"
  by (simp add: twiddle_def DeMoivre mult_ac)

lemma twiddle_eq_1_iff:
  assumes "0 < n"
  shows "twiddle n d = 1 \<longleftrightarrow> int n dvd d"
proof
  assume "twiddle n d = 1"
  then have "Re (cis (- (2 * pi * real_of_int d / real n))) = 1" by (simp add: twiddle_def)
  then have "cos (2 * pi * real_of_int d / real n) = 1" by simp
  then obtain q :: int where q: "2 * pi * real_of_int d / real n = real_of_int q * 2 * pi"
    using cos_one_2pi_int by blast
  then have "(2 * pi) * (real_of_int d / real n) = (2 * pi) * real_of_int q" by (simp add: mult_ac)
  then have "real_of_int d / real n = real_of_int q" by (simp only: mult_cancel_left) simp
  then have "real_of_int d = real_of_int (q * int n)" using assms by (simp add: field_simps)
  then have "d = q * int n" by (simp only: of_int_eq_iff)
  then show "int n dvd d" by simp
next
  assume "int n dvd d"
  then obtain q where "d = int n * q" by (auto simp: dvd_def)
  then show "twiddle n d = 1" using twiddle_multiple[OF assms] by simp
qed

lemma twiddle_sum:
  assumes "0 < n"
  shows "(\<Sum>k<n. twiddle n (d * int k)) = (if int n dvd d then of_nat n else 0)"
proof (cases "int n dvd d")
  case True
  then have "\<And>k. twiddle n (d * int k) = 1"
    using twiddle_eq_1_iff[OF assms] by simp
  then show ?thesis using True by simp
next
  case False
  then have ne: "twiddle n d \<noteq> 1" using twiddle_eq_1_iff[OF assms] by simp
  have "(\<Sum>k<n. twiddle n (d * int k)) = (\<Sum>k<n. twiddle n d ^ k)"
    by (simp add: twiddle_power)
  also have "\<dots> = (twiddle n d ^ n - 1) / (twiddle n d - 1)"
    using ne by (rule geometric_sum)
  also have "twiddle n d ^ n = 1"
    using twiddle_multiple[OF assms, of d] by (simp add: twiddle_power mult.commute)
  finally show ?thesis using False by simp
qed

lemma dft_twiddle: "dft a k = (\<Sum>m<length a. a ! m * twiddle (length a) (int m * int k))"
  by (simp only: dft_def twiddle_exp)

subsection \<open>Linearity, shift and energy of the Fourier sum\<close>

lemma dft_linear:
  assumes "length x = length y"
  shows "dft (map (\<lambda>(u, v). a * u + b * v) (zip x y)) k = a * dft x k + b * dft y k"
proof -
  have "dft (map (\<lambda>(u, v). a * u + b * v) (zip x y)) k
        = (\<Sum>m<length x. (a * x ! m + b * y ! m) * twiddle (length x) (int m * int k))"
    using assms by (simp add: dft_twiddle)
  also have "\<dots> = (\<Sum>m<length x. a * (x ! m * twiddle (length x) (int m * int k))
                                  + b * (y ! m * twiddle (length x) (int m * int k)))"
    by (rule sum.cong) (simp_all add: algebra_simps)
  also have "\<dots> = a * dft x k + b * dft y k"
    using assms by (simp add: dft_twiddle sum.distrib sum_distrib_left)
  finally show ?thesis .
qed

lemma dft_roll:
  assumes "a \<noteq> []"
  shows "dft (roll a m) k = twiddle (length a) (m * int k) * dft a k"
proof -
  let ?n = "length a"
  have n: "0 < ?n" using assms by simp
  let ?h = "\<lambda>j. nat ((int j - m) mod int ?n)"
  let ?g = "\<lambda>i. nat ((int i + m) mod int ?n)"
  have hg: "?h (?g i) = i" if "i < ?n" for i
  proof -
    have "(int (?g i) - m) mod int ?n = ((int i + m) mod int ?n - m) mod int ?n"
      using n by simp
    also have "\<dots> = (int i + m - m) mod int ?n" by (simp only: mod_diff_left_eq)
    also have "\<dots> = int i" using that by simp
    finally show ?thesis by simp
  qed
  have gh: "?g (?h j) = j" if "j < ?n" for j
  proof -
    have "(int (?h j) + m) mod int ?n = ((int j - m) mod int ?n + m) mod int ?n"
      using n by simp
    also have "\<dots> = (int j - m + m) mod int ?n" by (simp only: mod_add_left_eq)
    also have "\<dots> = int j" using that by simp
    finally show ?thesis by simp
  qed
  have hlt: "?h j < ?n" for j using n by (simp add: nat_less_iff)
  have glt: "?g i < ?n" for i using n by (simp add: nat_less_iff)
  have tw: "twiddle ?n (int (?g i) * int k) = twiddle ?n (m * int k) * twiddle ?n (int i * int k)" for i
  proof -
    have "int (?g i) = (int i + m) mod int ?n" using n by simp
    then have "(int (?g i) * int k) mod int ?n = ((int i + m) * int k) mod int ?n"
      by (simp add: mod_mult_left_eq)
    then have "twiddle ?n (int (?g i) * int k) = twiddle ?n ((int i + m) * int k)"
      by (rule twiddle_cong[OF n])
    also have "\<dots> = twiddle ?n (m * int k + int i * int k)" by (simp add: algebra_simps)
    finally show ?thesis by (simp only: twiddle_add)
  qed
  have "dft (roll a m) k = (\<Sum>j<?n. a ! ?h j * twiddle ?n (int j * int k))"
    by (simp add: dft_twiddle roll_length roll_nth)
  also have "\<dots> = (\<Sum>i<?n. a ! i * twiddle ?n (int (?g i) * int k))"
    by (rule sum.reindex_bij_witness[of _ ?g ?h]) (simp_all only: lessThan_iff hg gh hlt glt)
  also have "\<dots> = (\<Sum>i<?n. twiddle ?n (m * int k) * (a ! i * twiddle ?n (int i * int k)))"
    by (rule sum.cong) (simp_all only: tw, simp)
  also have "\<dots> = twiddle ?n (m * int k) * dft a k"
    by (simp only: dft_twiddle sum_distrib_left)
  finally show ?thesis .
qed

lemma parseval_dft:
  assumes "a \<noteq> []"
  shows "(\<Sum>k<length a. (cmod (dft a k))\<^sup>2) = real (length a) * (\<Sum>m<length a. (cmod (a ! m))\<^sup>2)"
proof -
  let ?n = "length a"
  have n: "0 < ?n" using assms by simp
  have cnj_tw: "cnj (twiddle ?n j) = twiddle ?n (- j)" for j
    by (simp add: twiddle_def cis_cnj)
  have orth: "(\<Sum>k<?n. twiddle ?n ((int m - int l) * int k)) = (if m = l then of_nat ?n else 0)"
    if "m < ?n" "l < ?n" for m l
  proof -
    have "int ?n dvd (int m - int l) \<longleftrightarrow> m = l"
    proof
      assume d: "int ?n dvd (int m - int l)"
      have "\<bar>int m - int l\<bar> < int ?n" using that by linarith
      with d have "int m - int l = 0" using zdvd_not_zless[of "\<bar>int m - int l\<bar>" "int ?n"]
        by (metis abs_ge_zero dvd_abs_iff order_le_less abs_eq_0)
      then show "m = l" by simp
    qed simp
    then show ?thesis using twiddle_sum[OF n, of "int m - int l"] by simp
  qed
  have "complex_of_real (\<Sum>k<?n. (cmod (dft a k))\<^sup>2) = (\<Sum>k<?n. dft a k * cnj (dft a k))"
    by (simp only: of_real_sum complex_norm_square)
  also have "\<dots> = (\<Sum>k<?n. \<Sum>m<?n. \<Sum>l<?n. a ! m * cnj (a ! l) * twiddle ?n ((int m - int l) * int k))"
  proof (rule sum.cong[OF refl])
    fix k
    have "dft a k * cnj (dft a k)
          = (\<Sum>m<?n. a ! m * twiddle ?n (int m * int k)) * (\<Sum>l<?n. cnj (a ! l) * twiddle ?n (- (int l * int k)))"
      by (simp add: dft_twiddle cnj_tw)
    also have "\<dots> = (\<Sum>m<?n. \<Sum>l<?n. (a ! m * twiddle ?n (int m * int k)) * (cnj (a ! l) * twiddle ?n (- (int l * int k))))"
      by (rule sum_product)
    also have "\<dots> = (\<Sum>m<?n. \<Sum>l<?n. a ! m * cnj (a ! l) * twiddle ?n ((int m - int l) * int k))"
    proof (intro sum.cong refl)
      fix m l
      have "twiddle ?n ((int m - int l) * int k) = twiddle ?n (int m * int k) * twiddle ?n (- (int l * int k))"
        by (simp only: twiddle_add[symmetric]) (simp add: algebra_simps)
      then show "(a ! m * twiddle ?n (int m * int k)) * (cnj (a ! l) * twiddle ?n (- (int l * int k)))
                 = a ! m * cnj (a ! l) * twiddle ?n ((int m - int l) * int k)"
        by simp
    qed
    finally show "dft a k * cnj (dft a k) = (\<Sum>m<?n. \<Sum>l<?n. a ! m * cnj (a ! l) * twiddle ?n ((int m - int l) * int k))" .
  qed
  also have "\<dots> = (\<Sum>m<?n. \<Sum>k<?n. \<Sum>l<?n. a ! m * cnj (a ! l) * twiddle ?n ((int m - int l) * int k))"
    by (rule sum.swap)
  also have "\<dots> = (\<Sum>m<?n. \<Sum>l<?n. \<Sum>k<?n. a ! m * cnj (a ! l) * twiddle ?n ((int m - int l) * int k))"
    by (intro sum.cong refl sum.swap)
  also have "\<dots> = (\<Sum>m<?n. \<Sum>l<?n. a ! m * cnj (a ! l) * (if m = l then of_nat ?n else 0))"
  proof (intro sum.cong refl)
    fix m l assume "m \<in> {..<?n}" "l \<in> {..<?n}"
    then have "(\<Sum>k<?n. twiddle ?n ((int m - int l) * int k)) = (if m = l then of_nat ?n else 0)"
      using orth by simp
    then show "(\<Sum>k<?n. a ! m * cnj (a ! l) * twiddle ?n ((int m - int l) * int k))
               = a ! m * cnj (a ! l) * (if m = l then of_nat ?n else 0)"
      by (simp only: sum_distrib_left[symmetric])
  qed
  also have "\<dots> = (\<Sum>m<?n. a ! m * cnj (a ! m) * of_nat ?n)"
  proof (intro sum.cong refl)
    fix m assume m: "m \<in> {..<?n}"
    have "(\<Sum>l<?n. a ! m * cnj (a ! l) * (if m = l then of_nat ?n else 0))
          = (\<Sum>l<?n. if l = m then a ! m * cnj (a ! m) * of_nat ?n else 0)"
      by (rule sum.cong) auto
    also have "\<dots> = a ! m * cnj (a ! m) * of_nat ?n" using m by (simp add: sum.delta)
    finally show "(\<Sum>l<?n. a ! m * cnj (a ! l) * (if m = l then of_nat ?n else 0)) = a ! m * cnj (a ! m) * of_nat ?n" .
  qed
  also have "\<dots> = (\<Sum>m<?n. complex_of_real ((cmod (a ! m))\<^sup>2) * of_nat ?n)"
    by (simp only: complex_norm_square)
  also have "\<dots> = complex_of_real (real ?n * (\<Sum>m<?n. (cmod (a ! m))\<^sup>2))"
    by (simp add: sum_distrib_left mult.commute)
  finally show ?thesis by (simp only: of_real_eq_iff)
qed

subsection \<open>The linearity verifier\<close>

lemma broadcast_maps: "broadcast f (map g p) (map h p) = Inr (map (\<lambda>i. f (g i) (h i)) p)"
  by (simp add: broadcast_def zip_same_map)

lemma broadcast_same_length:
  "length xs = length ys \<Longrightarrow> broadcast f xs ys = Inr (map (\<lambda>(x, y). f x y) (zip xs ys))"
  by (simp add: broadcast_def)

lemma np_max_zeros:
  assumes "p \<noteq> []"
  shows "np_max (map (\<lambda>i. 0) p) = Inr 0"
proof -
  have "set (map (\<lambda>i. 0 :: real) p) = {0}" using assms by (cases p) auto
  then show ?thesis using assms by (simp add: np_max_def del: set_map)
qed

lemma ctf_idx_nonempty: "0 < N \<Longrightarrow> ctf_idx N dt \<noteq> []"
  using ctf_idx_length[of N dt] by auto

lemma bind_err_Inr [simp]: "bind_err (Inr x) f = f x"
  by (simp add: bind_err_def)

lemma bind_err_Inl [simp]: "bind_err (Inl e) f = Inl e"
  by (simp add: bind_err_def)

lemma spectrum_linear:
  assumes "length s1 = length s2"
  shows "dft (map complex_of_real (map (\<lambda>(x, y). a * x + b * y) (zip s1 s2))) k
         = complex_of_real a * dft (map complex_of_real s1) k
           + complex_of_real b * dft (map complex_of_real s2) k"
proof -
  have "map complex_of_real (map (\<lambda>(x, y). a * x + b * y) (zip s1 s2))
        = map (\<lambda>(u, v). complex_of_real a * u + complex_of_real b * v)
              (zip (map complex_of_real s1) (map complex_of_real s2))"
    by (simp add: zip_map_map split_def)
  then show ?thesis using dft_linear[of "map complex_of_real s1" "map complex_of_real s2"] assms by simp
qed

lemma linealidad_zero:
  assumes "s1 \<noteq> []" "length s1 = length s2" "dt \<noteq> 0"
  shows "verificar_linealidad t s1 s2 dt = Inr 0"
proof -
  let ?N = "length s1" and ?p = "ctf_idx (length s1) dt"
  let ?c = "map (\<lambda>(x, y). 2 * x + 3 * y) (zip s1 s2)"
  define D1 where "D1 = (\<lambda>k. dft (map complex_of_real s1) k * complex_of_real dt)"
  define D2 where "D2 = (\<lambda>k. dft (map complex_of_real s2) k * complex_of_real dt)"
  define Dc where "Dc = (\<lambda>k. dft (map complex_of_real ?c) k * complex_of_real dt)"
  have s2: "s2 \<noteq> []" using assms by auto
  have c: "?c \<noteq> []" "length ?c = ?N" using assms by auto
  have b1: "broadcast (+) (map (\<lambda>x. 2 * x) s1) (map (\<lambda>x. 3 * x) s2) = Inr ?c"
    using assms(2) by (simp add: broadcast_same_length zip_map_map split_def)
  have t1: "calcular_transformada_fourier s1 dt = Inr (map (bin_freq ?N dt) ?p, map D1 ?p)"
    unfolding D1_def by (rule calcular_eq[OF assms(1,3)])
  have t2: "calcular_transformada_fourier s2 dt = Inr (map (bin_freq ?N dt) ?p, map D2 ?p)"
    unfolding D2_def using calcular_eq[OF s2 assms(3)] assms(2) by simp
  have t3: "calcular_transformada_fourier ?c dt = Inr (map (bin_freq ?N dt) ?p, map Dc ?p)"
    unfolding Dc_def using calcular_eq[OF c(1) assms(3)] c(2) by simp
  have dz: "Dc k = 2 * D1 k + 3 * D2 k" for k
    unfolding Dc_def D1_def D2_def using spectrum_linear[OF assms(2), of 2 3 k]
    by (simp add: algebra_simps)
  have p: "?p \<noteq> []" using assms(1) by (simp add: ctf_idx_nonempty)
  have e1: "map (\<lambda>z. complex_of_real 2 * z) (map D1 ?p) = map (\<lambda>k. 2 * D1 k) ?p"
    and e2: "map (\<lambda>z. complex_of_real 3 * z) (map D2 ?p) = map (\<lambda>k. 3 * D2 k) ?p"
    by simp_all
  have el: "broadcast (+) (map (\<lambda>k. 2 * D1 k) ?p) (map (\<lambda>k. 3 * D2 k) ?p)
            = Inr (map (\<lambda>k. 2 * D1 k + 3 * D2 k) ?p)"
    by (rule broadcast_maps)
  have df: "broadcast (-) (map Dc ?p) (map (\<lambda>k. 2 * D1 k + 3 * D2 k) ?p) = Inr (map (\<lambda>k. 0) ?p)"
    by (simp add: broadcast_maps dz)
  have mx: "np_max (map cmod (map (\<lambda>k. 0) ?p)) = Inr 0"
    using np_max_zeros[OF p] by (simp add: comp_def)
  show ?thesis
    unfolding verificar_linealidad_def Let_def b1 t1 t2 t3 bind_err_Inr prod.case e1 e2 el df
    by (rule mx)
qed

text \<open>
  Claim C5. For non-empty signals \<open>s1\<close>, \<open>s2\<close> of equal length and \<open>dt > 0\<close>: for all real
  \<open>a\<close>, \<open>b\<close> the transform of \<open>a s1 + b s2\<close> has the frequencies of the transforms of
  \<open>s1\<close> and \<open>s2\<close> and, bin by bin over the full spectrum, the value
  \<open>a transform(s1) + b transform(s2)\<close>; and the linearity verifier (with its \<open>a = 2\<close>,
  \<open>b = 3\<close>) reports the error 0, which is below every positive tolerance.
\<close>

theorem C5_linearity:
  assumes "s1 \<noteq> []" and "length s1 = length s2" and "0 < dt"
  shows "(\<forall>a b. \<exists>fs e1 e2 ec.
            calcular_transformada_fourier s1 dt = Inr (fs, e1) \<and>
            calcular_transformada_fourier s2 dt = Inr (fs, e2) \<and>
            calcular_transformada_fourier (map (\<lambda>(x, y). a * x + b * y) (zip s1 s2)) dt = Inr (fs, ec) \<and>
            length ec = length s1 \<and>
            ec = map (\<lambda>(u, v). complex_of_real a * u + complex_of_real b * v) (zip e1 e2)) \<and>
         verificar_linealidad t s1 s2 dt = Inr 0"
proof (intro conjI allI)
  fix a b :: real
  let ?N = "length s1" and ?p = "ctf_idx (length s1) dt"
  let ?c = "map (\<lambda>(x, y). a * x + b * y) (zip s1 s2)"
  let ?D1 = "\<lambda>k. dft (map complex_of_real s1) k * complex_of_real dt"
  let ?D2 = "\<lambda>k. dft (map complex_of_real s2) k * complex_of_real dt"
  let ?Dc = "\<lambda>k. dft (map complex_of_real ?c) k * complex_of_real dt"
  have dt: "dt \<noteq> 0" using assms(3) by simp
  have s2: "s2 \<noteq> []" using assms by auto
  have c: "?c \<noteq> []" "length ?c = ?N" using assms by auto
  have t1: "calcular_transformada_fourier s1 dt = Inr (map (bin_freq ?N dt) ?p, map ?D1 ?p)"
    by (rule calcular_eq[OF assms(1) dt])
  have t2: "calcular_transformada_fourier s2 dt = Inr (map (bin_freq ?N dt) ?p, map ?D2 ?p)"
    using calcular_eq[OF s2 dt] assms(2) by simp
  have t3: "calcular_transformada_fourier ?c dt = Inr (map (bin_freq ?N dt) ?p, map ?Dc ?p)"
    using calcular_eq[OF c(1) dt] c(2) by simp
  have "map ?Dc ?p = map (\<lambda>k. complex_of_real a * ?D1 k + complex_of_real b * ?D2 k) ?p"
    by (rule map_cong[OF refl]) (simp only: spectrum_linear[OF assms(2)] distrib_right mult.assoc)
  also have "\<dots> = map (\<lambda>(u, v). complex_of_real a * u + complex_of_real b * v) (zip (map ?D1 ?p) (map ?D2 ?p))"
    by (simp add: zip_same_map)
  finally have e: "map ?Dc ?p = map (\<lambda>(u, v). complex_of_real a * u + complex_of_real b * v) (zip (map ?D1 ?p) (map ?D2 ?p))" .
  have l: "length (map ?Dc ?p) = ?N" by (simp add: ctf_idx_length)
  show "\<exists>fs e1 e2 ec.
            calcular_transformada_fourier s1 dt = Inr (fs, e1) \<and>
            calcular_transformada_fourier s2 dt = Inr (fs, e2) \<and>
            calcular_transformada_fourier ?c dt = Inr (fs, ec) \<and>
            length ec = length s1 \<and>
            ec = map (\<lambda>(u, v). complex_of_real a * u + complex_of_real b * v) (zip e1 e2)"
    using t1 t2 t3 l e by blast
next
  show "verificar_linealidad t s1 s2 dt = Inr 0"
    using linealidad_zero[OF assms(1,2)] assms(3) by simp
qed

theorem C5_linearity_witness:
  "[1, 0] \<noteq> ([] :: real list) \<and> length [1, 0 :: real] = length [0, 1 :: real] \<and> (0 :: real) < 1 \<and>
   verificar_linealidad [0, 1] [1, 0] [0, 1] 1 = Inr 0 \<and>
   (\<exists>fs e1 e2 ec.
      calcular_transformada_fourier [1, 0] 1 = Inr (fs, e1) \<and>
      calcular_transformada_fourier [0, 1] 1 = Inr (fs, e2) \<and>
      calcular_transformada_fourier (map (\<lambda>(x, y). 5 * x + 7 * y) (zip [1, 0] [0, 1])) 1 = Inr (fs, ec) \<and>
      length ec = length [1, 0 :: real] \<and>
      ec = map (\<lambda>(u, v). complex_of_real 5 * u + complex_of_real 7 * v) (zip e1 e2))"
proof -
  have h: "[1, 0] \<noteq> ([] :: real list)" "length [1, 0 :: real] = length [0, 1 :: real]" "(0 :: real) < 1"
    by simp_all
  note w = C5_linearity [OF h, of "[0, 1]"]
  from w have "verificar_linealidad [0, 1] [1, 0] [0, 1] 1 = Inr 0" by (rule conjunct2)
  moreover from w have "\<forall>a b. \<exists>fs e1 e2 ec.
            calcular_transformada_fourier [1, 0] 1 = Inr (fs, e1) \<and>
            calcular_transformada_fourier [0, 1] 1 = Inr (fs, e2) \<and>
            calcular_transformada_fourier (map (\<lambda>(x, y). a * x + b * y) (zip [1, 0] [0, 1])) 1 = Inr (fs, ec) \<and>
            length ec = length [1, 0 :: real] \<and>
            ec = map (\<lambda>(u, v). complex_of_real a * u + complex_of_real b * v) (zip e1 e2)"
    by (rule conjunct1)
  then have "\<exists>fs e1 e2 ec.
      calcular_transformada_fourier [1, 0] 1 = Inr (fs, e1) \<and>
      calcular_transformada_fourier [0, 1] 1 = Inr (fs, e2) \<and>
      calcular_transformada_fourier (map (\<lambda>(x, y). 5 * x + 7 * y) (zip [1, 0] [0, 1])) 1 = Inr (fs, ec) \<and>
      length ec = length [1, 0 :: real] \<and>
      ec = map (\<lambda>(u, v). complex_of_real 5 * u + complex_of_real 7 * v) (zip e1 e2)"
    by blast
  ultimately show ?thesis using h by blast
qed

subsection \<open>The time-shift verifier\<close>

lemma roll_map: "roll (map f a) m = map f (roll a m)"
  by (simp add: roll_def Let_def drop_map take_map)

text \<open>
  In exact arithmetic the shift by \<open>m\<close> samples matches the predicted factor at
  \<open>t0 = m dt\<close> bin by bin.
\<close>

lemma shift_factor:
  assumes "0 < N" "dt \<noteq> 0"
  shows "exp (- (2 * \<i>) * of_real pi * of_real (bin_freq N dt k) * of_real (of_int m * dt))
         = twiddle N (m * int k)"
proof -
  define z where "z = (if 2 * k < N then int k else int k - int N)"
  have bf: "bin_freq N dt k = real_of_int z / (real N * dt)"
    by (simp add: bin_freq_def z_def)
  have "bin_freq N dt k * (of_int m * dt) = real_of_int (z * m) / real N"
    unfolding bf using assms by (simp add: field_simps)
  then have "- (2 * \<i>) * of_real pi * of_real (bin_freq N dt k) * of_real (of_int m * dt)
        = \<i> * complex_of_real (- (2 * pi * real_of_int (z * m) / real N))"
    by (simp only: mult.assoc of_real_mult[symmetric]) (simp add: algebra_simps)
  then have "exp (- (2 * \<i>) * of_real pi * of_real (bin_freq N dt k) * of_real (of_int m * dt))
        = twiddle N (z * m)"
    by (simp only: twiddle_def cis_conv_exp)
  also have "\<dots> = twiddle N (m * int k)"
  proof (rule twiddle_cong[OF assms(1)])
    have "z * m = m * int k + int N * (if 2 * k < N then 0 else - m)"
      by (simp add: z_def algebra_simps)
    then show "z * m mod int N = m * int k mod int N" by (simp only: mod_mult_self2)
  qed
  finally show ?thesis .
qed

lemma desplazamiento_pointwise:
  assumes "s \<noteq> []" "dt \<noteq> 0"
  shows "dft (map complex_of_real (roll s m)) k * complex_of_real dt
         = exp (- (2 * \<i>) * of_real pi * of_real (bin_freq (length s) dt k) * of_real (of_int m * dt))
           * (dft (map complex_of_real s) k * complex_of_real dt)"
proof -
  have N: "0 < length s" using assms by simp
  have "dft (map complex_of_real (roll s m)) k = dft (roll (map complex_of_real s) m) k"
    by (simp only: roll_map)
  also have "\<dots> = twiddle (length s) (m * int k) * dft (map complex_of_real s) k"
    using dft_roll[of "map complex_of_real s" m k] assms by simp
  finally have "dft (map complex_of_real (roll s m)) k * complex_of_real dt
      = twiddle (length s) (m * int k) * (dft (map complex_of_real s) k * complex_of_real dt)"
    by (simp only: mult.assoc)
  then show ?thesis unfolding shift_factor[OF N assms(2)] .
qed

subsection \<open>Energy of the spectrum\<close>

lemma perm_sum_list:
  fixes f :: "nat \<Rightarrow> real"
  assumes "mset p = mset q"
  shows "sum_list (map f p) = sum_list (map f q)"
proof -
  have "sum_list (map f p) = sum_mset (image_mset f (mset p))"
    by (simp only: sum_mset_sum_list[symmetric] mset_map)
  also have "\<dots> = sum_mset (image_mset f (mset q))" by (simp only: assms)
  also have "\<dots> = sum_list (map f q)" by (simp only: sum_mset_sum_list[symmetric] mset_map)
  finally show ?thesis .
qed

lemma sum_list_nth_conv: "sum_list (map f xs) = (\<Sum>i<length xs. f (xs ! i))"
proof -
  have "sum_list (map f xs) = (\<Sum>i = 0..<length (map f xs). map f xs ! i)"
    by (rule sum_list_sum_nth)
  also have "\<dots> = (\<Sum>i<length xs. f (xs ! i))"
    by (simp add: atLeast0LessThan)
  finally show ?thesis .
qed

lemma spectrum_energy:
  assumes "s \<noteq> []" "dt \<noteq> 0"
  shows "sum_list (map (\<lambda>k. (cmod (dft (map complex_of_real s) k * complex_of_real dt))\<^sup>2)
                       (ctf_idx (length s) dt))
         = dt\<^sup>2 * real (length s) * sum_list (map (\<lambda>x. \<bar>x\<bar>\<^sup>2) s)"
proof -
  let ?N = "length s" and ?S = "map complex_of_real s"
  have S: "?S \<noteq> []" "length ?S = ?N" using assms by auto
  have "sum_list (map (\<lambda>k. (cmod (dft ?S k * complex_of_real dt))\<^sup>2) (ctf_idx ?N dt))
        = sum_list (map (\<lambda>k. (cmod (dft ?S k * complex_of_real dt))\<^sup>2) [0 ..< ?N])"
    by (rule perm_sum_list) (rule ctf_idx_mset)
  also have "\<dots> = (\<Sum>k<?N. (cmod (dft ?S k * complex_of_real dt))\<^sup>2)"
    by (rule sum_list_upt_conv_sum)
  also have "\<dots> = (\<Sum>k<?N. dt\<^sup>2 * (cmod (dft ?S k))\<^sup>2)"
    by (rule sum.cong) (simp_all add: norm_mult power_mult_distrib)
  also have "\<dots> = dt\<^sup>2 * (\<Sum>k<length ?S. (cmod (dft ?S k))\<^sup>2)"
    by (simp add: sum_distrib_left)
  also have "\<dots> = dt\<^sup>2 * (real (length ?S) * (\<Sum>m<length ?S. (cmod (?S ! m))\<^sup>2))"
    by (simp only: parseval_dft[OF S(1)])
  also have "(\<Sum>m<length ?S. (cmod (?S ! m))\<^sup>2) = (\<Sum>m<?N. \<bar>s ! m\<bar>\<^sup>2)"
    by (rule sum.cong) simp_all
  also have "\<dots> = sum_list (map (\<lambda>x. \<bar>x\<bar>\<^sup>2) s)"
    by (simp only: sum_list_nth_conv)
  finally show ?thesis by (simp add: mult.assoc)
qed

text \<open>
  Claim C4 does not hold as stated: for the one-sample signal \<open>[1]\<close> and \<open>dt = 2\<close> the
  spectrum is \<open>[2]\<close>, so the sum of \<open>|spectrum|\<^sup>2 dt\<close> is 8, and the energy of the
  signal, \<open>|s|\<^sup>2 dt\<close> summed, is 2.
\<close>

theorem C4_dt_weight_counterexample:
  "calcular_transformada_fourier [1] 2 = Inr ([0], [2]) \<and>
   sum_list (map (\<lambda>z. (cmod z)\<^sup>2 * 2) [2 :: complex]) = 8 \<and>
   sum_list (map (\<lambda>x. \<bar>x\<bar>\<^sup>2 * 2) [1 :: real]) = 2"
  by (simp add: calcular_transformada_fourier_def fft_def fftfreq_def argsort_def take_idx_def
      Let_def upto.simps)

text \<open>
  Claim C4, amended. For a non-empty signal of length \<open>N\<close> and \<open>dt > 0\<close>, the sum over all
  bins of \<open>|spectrum[k]|\<^sup>2\<close> weighted by the bin spacing \<open>1/(N dt)\<close> equals the energy
  \<open>sum_n |s[n]|\<^sup>2 dt\<close> of the signal; weighted by \<open>dt\<close>, as the claim has it, the sum
  is \<open>N dt\<^sup>2\<close> times that energy.
\<close>

theorem C4_parseval:
  assumes "s \<noteq> []" and "0 < dt"
  shows "\<exists>fs sp.
           calcular_transformada_fourier s dt = Inr (fs, sp) \<and>
           sum_list (map (\<lambda>z. (cmod z)\<^sup>2 * (1 / (real (length s) * dt))) sp)
             = sum_list (map (\<lambda>x. \<bar>x\<bar>\<^sup>2 * dt) s) \<and>
           sum_list (map (\<lambda>z. (cmod z)\<^sup>2 * dt) sp)
             = real (length s) * dt\<^sup>2 * sum_list (map (\<lambda>x. \<bar>x\<bar>\<^sup>2 * dt) s)"
proof -
  let ?N = "length s" and ?p = "ctf_idx (length s) dt"
  let ?D = "\<lambda>k. dft (map complex_of_real s) k * complex_of_real dt"
  have dt: "dt \<noteq> 0" using assms(2) by simp
  have N: "real ?N \<noteq> 0" using assms(1) by simp
  have t: "calcular_transformada_fourier s dt = Inr (map (bin_freq ?N dt) ?p, map ?D ?p)"
    by (rule calcular_eq[OF assms(1) dt])
  have E: "sum_list (map (\<lambda>z. (cmod z)\<^sup>2) (map ?D ?p)) = dt\<^sup>2 * real ?N * sum_list (map (\<lambda>x. \<bar>x\<bar>\<^sup>2) s)"
    using spectrum_energy[OF assms(1) dt] by (simp add: comp_def)
  have sc: "sum_list (map (\<lambda>z. g z * c) xs) = sum_list (map g xs) * c" for g :: "'a \<Rightarrow> real" and c xs
    by (induction xs) (simp_all add: algebra_simps)
  have a: "sum_list (map (\<lambda>z. (cmod z)\<^sup>2 * (1 / (real ?N * dt))) (map ?D ?p))
           = sum_list (map (\<lambda>x. \<bar>x\<bar>\<^sup>2 * dt) s)"
    unfolding sc E using dt N by (simp add: power2_eq_square)
  have b: "sum_list (map (\<lambda>z. (cmod z)\<^sup>2 * dt) (map ?D ?p))
           = real ?N * dt\<^sup>2 * sum_list (map (\<lambda>x. \<bar>x\<bar>\<^sup>2 * dt) s)"
    unfolding sc E by simp
  show ?thesis using t a b by blast
qed

theorem C4_parseval_witness:
  "[1] \<noteq> ([] :: real list) \<and> (0 :: real) < 2 \<and>
   (\<exists>fs sp.
      calcular_transformada_fourier [1] 2 = Inr (fs, sp) \<and>
      sum_list (map (\<lambda>z. (cmod z)\<^sup>2 * (1 / (real (length [1 :: real]) * 2))) sp)
        = sum_list (map (\<lambda>x. \<bar>x\<bar>\<^sup>2 * 2) [1 :: real]) \<and>
      sum_list (map (\<lambda>z. (cmod z)\<^sup>2 * 2) sp)
        = real (length [1 :: real]) * 2\<^sup>2 * sum_list (map (\<lambda>x. \<bar>x\<bar>\<^sup>2 * 2) [1 :: real]))"
  using C4_parseval [of "[1]" 2] by simp

subsection \<open>The bin of frequency zero\<close>

lemma bin_freq_zero_iff:
  assumes "k < N" "dt \<noteq> 0"
  shows "bin_freq N dt k = 0 \<longleftrightarrow> k = 0"
  using assms by (auto simp add: bin_freq_def)

lemma dft_zero_bin: "dft (map complex_of_real s) 0 = complex_of_real (sum_list s)"
proof -
  have "dft (map complex_of_real s) 0 = (\<Sum>m<length s. complex_of_real (s ! m))"
    by (simp add: dft_def)
  also have "\<dots> = complex_of_real (\<Sum>m<length s. s ! m)" by simp
  also have "(\<Sum>m<length s. s ! m) = sum_list s"
    using sum_list_nth_conv[of "\<lambda>x. x" s] by simp
  finally show ?thesis .
qed

subsection \<open>The frequency-scaling verifier\<close>

lemma ctf_10: "calcular_transformada_fourier [1, 0] 1 = Inr ([- 1 / 2, 0], [1, 1])"
  by (simp add: calcular_transformada_fourier_def fft_def fftfreq_def argsort_def take_idx_def
      Let_def upto.simps numeral_2_eq_2)

lemma ctf_00: "calcular_transformada_fourier [0, 0] 1 = Inr ([- 1 / 2, 0], [0, 0])"
  by (simp add: calcular_transformada_fourier_def fft_def fftfreq_def argsort_def take_idx_def
      Let_def upto.simps numeral_2_eq_2)

lemma interp_t: "np_interp [0, 1] (map (\<lambda>\<tau>. \<tau> * (- 1)) [0, 1]) [1, 0] 0 0 = Inr [0, 0]"
  by (simp add: np_interp_def interp_one_def)

lemma interp_f: "np_interp [- 1 / 2, 0] (map (\<lambda>f. f * (- 1)) [- 1 / 2, 0]) (map cmod [1, 1]) 0 0 = Inr [0, 0]"
  by (simp add: np_interp_def interp_one_def)

text \<open>
  Claim C8 at a negative factor. On the grid \<open>[0, 1]\<close>, the signal \<open>[1, 0]\<close>, \<open>dt = 1\<close>
  and \<open>factor = -1\<close> both calls of \<open>np.interp\<close> receive decreasing sample points and
  return the zero fill at every query, and the verifier reports the error 0. The error
  the claim describes, with the interpolant through the nodes \<open>(1/2, 1)\<close> and \<open>(0, 1)\<close>,
  is 1.
\<close>

theorem C8_negative_factor:
  "verificar_escalamiento_frecuencia [0, 1] [1, 0] 1 (- 1) = Inr 0 \<and>
   escalamiento_error_spec [0, 1] [1, 0] 1 (- 1) = Inr 1"
proof
  show "verificar_escalamiento_frecuencia [0, 1] [1, 0] 1 (- 1) = Inr 0"
    unfolding verificar_escalamiento_frecuencia_def Let_def interp_t bind_err_Inr ctf_10 ctf_00
      prod.case interp_f
    by (simp add: broadcast_def np_max_def)
  show "escalamiento_error_spec [0, 1] [1, 0] 1 (- 1) = Inr 1"
    unfolding escalamiento_error_spec_def interp_t bind_err_Inr ctf_10 ctf_00 prod.case
    by (simp add: escalamiento_prediccion_def lin_interp_def np_max_def)
qed

lemma linear_search_spec:
  "1 \<le> i \<Longrightarrow> i \<le> length arr \<Longrightarrow> arr ! (i - 1) \<le> key \<Longrightarrow>
   linear_search key arr i < length arr \<and>
   arr ! linear_search key arr i \<le> key \<and>
   (linear_search key arr i + 1 < length arr \<longrightarrow> key < arr ! (linear_search key arr i + 1))"
proof (induction key arr i rule: linear_search.induct)
  case (1 key arr i)
  show ?case
  proof (cases "i < length arr \<and> key \<ge> arr ! i")
    case True
    then have "linear_search key arr i = linear_search key arr (Suc i)"
      by (subst linear_search.simps) simp
    moreover have "linear_search key arr (Suc i) < length arr \<and>
        arr ! linear_search key arr (Suc i) \<le> key \<and>
        (linear_search key arr (Suc i) + 1 < length arr \<longrightarrow>
          key < arr ! (linear_search key arr (Suc i) + 1))"
      using True by (intro "1.IH") simp_all
    ultimately show ?thesis by simp
  next
    case False
    then have r: "linear_search key arr i = i - 1"
      by (subst linear_search.simps) auto
    have "i - 1 + 1 = i" using "1.prems"(1) by simp
    then show ?thesis unfolding r using False "1.prems" by auto
  qed
qed

lemma interp_sorted_below:
  "ps \<noteq> [] \<Longrightarrow> x < fst (hd ps) \<Longrightarrow> interp_sorted ps x = 0"
  by (cases "(ps, x)" rule: interp_sorted.cases) auto

lemma interp_sorted_above:
  "sorted_wrt (<) (map fst ps) \<Longrightarrow> ps \<noteq> [] \<Longrightarrow> fst (last ps) < x \<Longrightarrow> interp_sorted ps x = 0"
proof (induction ps x rule: interp_sorted.induct)
  case (1 x)
  then show ?case by simp
next
  case (2 u v x)
  then show ?case by simp
next
  case (3 u v u' v' ps x)
  have l: "fst (last ((u', v') # ps)) < x" using "3.prems"(3) by simp
  have "u' \<le> fst (last ((u', v') # ps))"
    using "3.prems"(1) by (cases ps rule: rev_cases) (auto simp add: sorted_wrt_append)
  then have ux: "u' < x" using l by simp
  have "u < u'" using "3.prems"(1) by simp
  then have "\<not> x < u" "x \<noteq> u" "\<not> x < u'" using ux by auto
  moreover have "interp_sorted ((u', v') # ps) x = 0"
    using "3.prems"(1) l \<open>\<not> x < u\<close> \<open>x \<noteq> u\<close> \<open>\<not> x < u'\<close> by (intro "3.IH") simp_all
  ultimately show ?case by simp
qed

lemma interp_sorted_within:
  "sorted_wrt (<) (map fst ps) \<Longrightarrow> j < length ps \<Longrightarrow> fst (ps ! j) \<le> x \<Longrightarrow>
   (j + 1 < length ps \<longrightarrow> x < fst (ps ! (j + 1))) \<Longrightarrow>
   (j + 1 = length ps \<longrightarrow> x = fst (ps ! j)) \<Longrightarrow>
   interp_sorted ps x =
     (if fst (ps ! j) = x then snd (ps ! j)
      else snd (ps ! j) + (snd (ps ! (j + 1)) - snd (ps ! j)) * (x - fst (ps ! j))
                          / (fst (ps ! (j + 1)) - fst (ps ! j)))"
proof (induction ps x arbitrary: j rule: interp_sorted.induct)
  case (1 x)
  then show ?case by simp
next
  case (2 u v x)
  then show ?case by simp
next
  case (3 u v u' v' ps x)
  have uu: "u < u'" using "3.prems"(1) by simp
  show ?case
  proof (cases j)
    case 0
    then have "u \<le> x" "x < u'" using "3.prems" by auto
    then show ?thesis using 0 by auto
  next
    case (Suc k)
    have k: "k < length ((u', v') # ps)" using "3.prems"(2) Suc by simp
    have "u' \<le> fst (((u', v') # ps) ! k)"
    proof (cases k)
      case 0 then show ?thesis by simp
    next
      case (Suc k')
      have "fst (((u', v') # ps) ! 0) < fst (((u', v') # ps) ! k)"
        using "3.prems"(1) k Suc sorted_wrt_nth_less[of "(<)" "map fst ((u', v') # ps)" 0 k]
        by simp
      then show ?thesis by simp
    qed
    moreover have kx: "fst (((u', v') # ps) ! k) \<le> x" using "3.prems"(3) Suc by simp
    ultimately have ux: "u' \<le> x" by simp
    then have n: "\<not> x < u" "x \<noteq> u" "\<not> x < u'" using uu by auto
    have "interp_sorted ((u', v') # ps) x =
       (if fst (((u', v') # ps) ! k) = x then snd (((u', v') # ps) ! k)
        else snd (((u', v') # ps) ! k) + (snd (((u', v') # ps) ! (k + 1)) - snd (((u', v') # ps) ! k))
               * (x - fst (((u', v') # ps) ! k))
               / (fst (((u', v') # ps) ! (k + 1)) - fst (((u', v') # ps) ! k)))"
      using "3.prems" Suc n k kx by (intro "3.IH") simp_all
    then show ?thesis using n Suc by simp
  qed
qed

lemma lin_interp_sorted:
  assumes "sorted_wrt (<) xp" "length fp = length xp"
  shows "lin_interp xp fp x = interp_sorted (zip xp fp) x"
proof -
  have "sorted (map fst (zip xp fp))"
    using assms by (simp add: strict_sorted_iff)
  then have "sort_key fst (zip xp fp) = zip xp fp" by (rule sort_key_id_if_sorted)
  then show ?thesis by (simp add: lin_interp_def)
qed

lemma interp_one_lin_interp:
  assumes s: "sorted_wrt (<) xp" and ne: "xp \<noteq> []" and l: "length fp = length xp"
  shows "interp_one xp fp 0 0 x = lin_interp xp fp x"
proof -
  let ?n = "length xp" and ?ps = "zip xp fp"
  have n: "0 < ?n" using ne by simp
  have sp: "sorted_wrt (<) (map fst ?ps)" using s l by simp
  have pn: "?ps \<noteq> []" "length ?ps = ?n" using ne l by auto
  have hd: "fst (hd ?ps) = xp ! 0" using pn by (simp add: hd_conv_nth)
  have lst: "fst (last ?ps) = xp ! (?n - 1)" using pn l by (simp add: last_conv_nth)
  have nth: "fst (?ps ! j) = xp ! j" "snd (?ps ! j) = fp ! j" if "j < ?n" for j
    using that l by simp_all
  note li = lin_interp_sorted[OF s l]
  show ?thesis
  proof (cases "?n = 1")
    case True
    then obtain u where u: "xp = [u]" by (cases xp) auto
    with l obtain v where v: "fp = [v]" by (cases fp) auto
    show ?thesis unfolding li by (simp add: u v interp_one_def)
  next
    case False
    then have n2: "2 \<le> ?n" using n by linarith
    consider (above) "x > xp ! (?n - 1)" | (below) "\<not> x > xp ! (?n - 1)" "x < xp ! 0"
      | (within) "\<not> x > xp ! (?n - 1)" "\<not> x < xp ! 0" by blast
    then show ?thesis
    proof cases
      case above
      then have "interp_sorted ?ps x = 0"
        using interp_sorted_above[OF sp pn(1)] lst by simp
      then show ?thesis unfolding li using above False by (simp add: interp_one_def)
    next
      case below
      then have "interp_sorted ?ps x = 0"
        using interp_sorted_below[OF pn(1)] hd by simp
      then show ?thesis unfolding li using below False by (simp add: interp_one_def)
    next
      case within
      define j where "j = linear_search x xp 1"
      have "xp ! (1 - 1) \<le> x" using within(2) by simp
      then have js: "j < ?n" "xp ! j \<le> x" "j + 1 < ?n \<longrightarrow> x < xp ! (j + 1)"
        unfolding j_def using linear_search_spec[of 1 xp x] n by simp_all
      have last_eq: "j + 1 = ?n \<longrightarrow> x = xp ! j"
      proof
        assume "j + 1 = ?n"
        then have "j = ?n - 1" by simp
        then show "x = xp ! j" using js(2) within(1) by simp
      qed
      have j1: "j + 1 = ?n \<longleftrightarrow> j = ?n - 1" using n by auto
      have w: "interp_sorted ?ps x =
          (if fst (?ps ! j) = x then snd (?ps ! j)
           else snd (?ps ! j) + (snd (?ps ! (j + 1)) - snd (?ps ! j)) * (x - fst (?ps ! j))
                          / (fst (?ps ! (j + 1)) - fst (?ps ! j)))"
        using js last_eq l by (intro interp_sorted_within[OF sp]) (simp_all add: nth)
      have io: "interp_one xp fp 0 0 x =
          (if j = ?n - 1 then fp ! j
           else if xp ! j = x then fp ! j
           else (fp ! (j + 1) - fp ! j) / (xp ! (j + 1) - xp ! j) * (x - xp ! j) + fp ! j)"
        using within False by (simp add: interp_one_def Let_def j_def)
      show ?thesis
      proof (cases "j = ?n - 1")
        case True
        then have "x = xp ! j" using last_eq j1 by simp
        then show ?thesis unfolding li w io using True js(1) by (simp add: nth)
      next
        case F: False
        then have "j + 1 < ?n" using js(1) by linarith
        then show ?thesis unfolding li w io using F js(1) by (simp add: nth)
      qed
    qed
  qed
qed

lemma ctf_Inr_D:
  assumes "calcular_transformada_fourier s dt = Inr r"
  shows "s \<noteq> []" and "dt \<noteq> 0"
proof -
  show "s \<noteq> []"
    using assms by (auto simp add: calcular_transformada_fourier_def fft_def Let_def)
  then show "dt \<noteq> 0"
    using assms by (auto simp add: calcular_transformada_fourier_def fft_def fftfreq_def Let_def)
qed

text \<open>
  For a positive factor the verifier reports exactly the error the specification
  describes, on every grid, signal and step (errors included).
\<close>

lemma escalamiento_refines:
  assumes "0 < a"
  shows "verificar_escalamiento_frecuencia t s dt a = escalamiento_error_spec t s dt a"
proof (cases "np_interp t (map (\<lambda>\<tau>. \<tau> * a) t) s 0 0")
  case (Inl e)
  then show ?thesis
    by (simp add: verificar_escalamiento_frecuencia_def escalamiento_error_spec_def)
next
  case sc: (Inr scaled)
  show ?thesis
  proof (cases "calcular_transformada_fourier s dt")
    case (Inl e)
    then show ?thesis using sc
      by (simp add: verificar_escalamiento_frecuencia_def escalamiento_error_spec_def)
  next
    case t1: (Inr r)
    have sne: "s \<noteq> []" and dt: "dt \<noteq> 0" using ctf_Inr_D[OF t1] by simp_all
    let ?N = "length s" and ?p = "ctf_idx (length s) dt"
    let ?fs = "map (bin_freq ?N dt) ?p"
    let ?e = "map (\<lambda>k. dft (map complex_of_real s) k * complex_of_real dt) ?p"
    have r: "r = (?fs, ?e)" using t1 calcular_eq[OF sne dt] by simp
    show ?thesis
    proof (cases "calcular_transformada_fourier scaled dt")
      case (Inl e)
      then show ?thesis using sc t1
        by (simp add: verificar_escalamiento_frecuencia_def escalamiento_error_spec_def split_def)
    next
      case t2: (Inr r2)
      obtain f2 e2 where r2: "r2 = (f2, e2)" by (cases r2)
      have scl: "length scaled = length t" and ts: "length t = ?N"
        using sc by (auto simp add: np_interp_def split: if_splits)
      have scne: "scaled \<noteq> []" using ctf_Inr_D[OF t2] by simp
      have le2: "length e2 = ?N"
        using t2 calcular_eq[OF scne dt] r2 scl ts by (auto simp add: ctf_idx_length)
      let ?xp = "map (\<lambda>f. f * a) ?fs"
      have sx: "sorted_wrt (<) ?xp"
        using ctf_freqs_strict[OF dt, of ?N] assms by (simp add: sorted_wrt_map)
      have xne: "?xp \<noteq> []" using sne by (simp add: ctf_idx_nonempty)
      have lf: "length (map cmod ?e) = length ?xp" by simp
      have ni: "np_interp ?fs ?xp (map cmod ?e) 0 0 = Inr (map (lin_interp ?xp (map cmod ?e)) ?fs)"
        unfolding np_interp_def using xne lf interp_one_lin_interp[OF sx xne lf]
        by (simp del: map_map)
      have pred: "map (\<lambda>v. (1 / \<bar>a\<bar>) * v) (map (lin_interp ?xp (map cmod ?e)) ?fs)
                  = escalamiento_prediccion ?fs ?e a"
        by (simp add: escalamiento_prediccion_def)
      have lp: "length (escalamiento_prediccion ?fs ?e a) = ?N"
        by (simp add: escalamiento_prediccion_def ctf_idx_length)
      have bc: "broadcast (-) (map cmod e2) (escalamiento_prediccion ?fs ?e a)
                = Inr (map (\<lambda>(x, y). x - y) (zip (map cmod e2) (escalamiento_prediccion ?fs ?e a)))"
        using le2 lp by (simp add: broadcast_same_length)
      have mm: "map abs (map (\<lambda>(x, y). x - y) (zip (map cmod e2) (escalamiento_prediccion ?fs ?e a)))
                = map (\<lambda>(z, p). \<bar>cmod z - p\<bar>) (zip e2 (escalamiento_prediccion ?fs ?e a))"
        by (simp add: zip_map1 split_def)
      have a0: "a \<noteq> 0" using assms by simp
      have "verificar_escalamiento_frecuencia t s dt a
            = np_max (map (\<lambda>(z, p). \<bar>cmod z - p\<bar>) (zip e2 (escalamiento_prediccion ?fs ?e a)))"
        unfolding verificar_escalamiento_frecuencia_def Let_def sc t1 t2 r r2 bind_err_Inr prod.case
          ni pred bc mm using a0 by simp
      moreover have "escalamiento_error_spec t s dt a
            = np_max (map (\<lambda>(z, p). \<bar>cmod z - p\<bar>) (zip e2 (escalamiento_prediccion ?fs ?e a)))"
        unfolding escalamiento_error_spec_def sc t1 t2 r r2 bind_err_Inr prod.case
        using a0 by simp
      ultimately show ?thesis by simp
    qed
  qed
qed

subsection \<open>Rounding to the nearest double\<close>

lemma rhe_of_int [simp]: "rhe (of_int n) = n"
  by (simp add: rhe_def)

lemma rhe_bounds: "\<lfloor>z\<rfloor> \<le> rhe z" "rhe z \<le> \<lfloor>z\<rfloor> + 1"
  by (simp_all add: rhe_def Let_def)

lemma rhe_mono:
  assumes "z \<le> w"
  shows "rhe z \<le> rhe w"
proof (cases "\<lfloor>z\<rfloor> = \<lfloor>w\<rfloor>")
  case True
  then show ?thesis using assms by (auto simp add: rhe_def Let_def)
next
  case False
  then have "\<lfloor>z\<rfloor> < \<lfloor>w\<rfloor>" using assms floor_mono[of z w] by linarith
  then have "rhe z \<le> \<lfloor>w\<rfloor>" using rhe_bounds(2)[of z] by linarith
  then show ?thesis using rhe_bounds(1)[of w] by linarith
qed

lemma rhe_le_int: "z \<le> of_int n \<Longrightarrow> rhe z \<le> n"
  using rhe_mono[of z "of_int n"] by simp

lemma rhe_ge_int: "of_int n \<le> z \<Longrightarrow> n \<le> rhe z"
  using rhe_mono[of "of_int n" z] by simp

lemma two_powi_pos [simp]: "0 < (2::real) powi k"
  by simp

lemma float64_le:
  assumes "x \<noteq> 0" "x \<le> of_int n * 2 powi ulp_exp x"
  shows "float64 x \<le> of_int n * 2 powi ulp_exp x"
proof -
  have "x / 2 powi ulp_exp x \<le> of_int n" using assms(2) by (simp add: pos_divide_le_eq)
  then have "rhe (x / 2 powi ulp_exp x) \<le> n" by (rule rhe_le_int)
  then have "real_of_int (rhe (x / 2 powi ulp_exp x)) \<le> of_int n" by simp
  then show ?thesis using assms(1) by (simp add: float64_def)
qed

lemma float64_ge:
  assumes "x \<noteq> 0" "of_int n * 2 powi ulp_exp x \<le> x"
  shows "of_int n * 2 powi ulp_exp x \<le> float64 x"
proof -
  have "of_int n \<le> x / 2 powi ulp_exp x" using assms(2) by (simp add: pos_le_divide_eq)
  then have "n \<le> rhe (x / 2 powi ulp_exp x)" by (rule rhe_ge_int)
  then have "real_of_int n \<le> of_int (rhe (x / 2 powi ulp_exp x))" by simp
  then show ?thesis using assms(1) by (simp add: float64_def)
qed

lemma powr_powi: "(2::real) powr real_of_int k = 2 powi k"
  by (simp add: powr_real_of_int')

lemma powr_powi_Suc: "(2::real) powr (real_of_int k + 1) = 2 powi (k + 1)"
  using powr_powi[of "k + 1"] by simp

lemma floor_log2_bounds:
  assumes "x \<noteq> 0"
  shows "2 powi \<lfloor>log 2 \<bar>x\<bar>\<rfloor> \<le> \<bar>x\<bar>" "\<bar>x\<bar> < 2 powi (\<lfloor>log 2 \<bar>x\<bar>\<rfloor> + 1)"
proof -
  have p: "0 < \<bar>x\<bar>" using assms by simp
  have "(2::real) powr real_of_int \<lfloor>log 2 \<bar>x\<bar>\<rfloor> \<le> \<bar>x\<bar> \<and> \<bar>x\<bar> < 2 powr real_of_int (\<lfloor>log 2 \<bar>x\<bar>\<rfloor> + 1)"
    using floor_log_eq_powr_iff[OF p, of 2 "\<lfloor>log 2 \<bar>x\<bar>\<rfloor>"] by simp
  then show "2 powi \<lfloor>log 2 \<bar>x\<bar>\<rfloor> \<le> \<bar>x\<bar>" "\<bar>x\<bar> < 2 powi (\<lfloor>log 2 \<bar>x\<bar>\<rfloor> + 1)"
    by (simp_all add: powr_powi powr_powi_Suc)
qed

lemma floor_log2_eq:
  assumes "2 powi e \<le> \<bar>x\<bar>" "\<bar>x\<bar> < 2 powi (e + 1)"
  shows "\<lfloor>log 2 \<bar>x\<bar>\<rfloor> = e"
proof -
  have p: "0 < \<bar>x\<bar>" using assms(1) two_powi_pos[of e] by linarith
  have "(2::real) powr real_of_int e \<le> \<bar>x\<bar> \<and> \<bar>x\<bar> < 2 powr real_of_int (e + 1)"
    using assms by (simp add: powr_powi powr_powi_Suc)
  then show ?thesis using floor_log_eq_powr_iff[OF p, of 2 e] by simp
qed

lemma ulp_exp_eq:
  assumes "2 powi e \<le> \<bar>x\<bar>" "\<bar>x\<bar> < 2 powi (e + 1)" "- 1022 \<le> e"
  shows "ulp_exp x = e - 52"
  using floor_log2_eq[OF assms(1,2)] assms(3) by (simp add: ulp_exp_def)

lemma float64_eval:
  assumes "2 powi e \<le> \<bar>x\<bar>" "\<bar>x\<bar> < 2 powi (e + 1)" "- 1022 \<le> e"
  shows "float64 x = of_int (rhe (x / 2 powi (e - 52))) * 2 powi (e - 52)"
proof -
  have "0 < \<bar>x\<bar>" using assms(1) two_powi_pos[of e] by linarith
  then have "x \<noteq> 0" by simp
  then show ?thesis by (simp add: float64_def ulp_exp_eq[OF assms])
qed


lemma float64_0 [simp]: "float64 0 = 0"
  by (simp add: float64_def)

lemma two_powi_add: "(2::real) powi (a + b) = 2 powi a * 2 powi b"
  by (rule power_int_add) simp

lemma two_powi_mult_nat: "of_int (2 ^ m) * (2::real) powi k = 2 powi (int m + k)"
  by (simp add: two_powi_add)

lemma two_powi_mono: "a \<le> b \<Longrightarrow> (2::real) powi a \<le> 2 powi b"
  by (rule power_int_increasing) simp_all

lemma ulp_exp_upper:
  assumes "x \<noteq> 0"
  shows "\<bar>x\<bar> < 2 powi (ulp_exp x + 53)"
proof -
  have "\<lfloor>log 2 \<bar>x\<bar>\<rfloor> + 1 \<le> ulp_exp x + 53" by (simp add: ulp_exp_def)
  then have "(2::real) powi (\<lfloor>log 2 \<bar>x\<bar>\<rfloor> + 1) \<le> 2 powi (ulp_exp x + 53)" by (rule two_powi_mono)
  then show ?thesis using floor_log2_bounds(2)[OF assms] by linarith
qed

lemma ulp_exp_lower:
  assumes "x \<noteq> 0" "- 1074 < ulp_exp x"
  shows "2 powi (ulp_exp x + 52) \<le> \<bar>x\<bar>"
proof -
  have "ulp_exp x + 52 = \<lfloor>log 2 \<bar>x\<bar>\<rfloor>" using assms(2) by (simp add: ulp_exp_def max_def split: if_splits)
  then show ?thesis using floor_log2_bounds(1)[OF assms(1)] by simp
qed

lemma ulp_exp_mono:
  assumes "x \<noteq> 0" "\<bar>x\<bar> \<le> \<bar>y\<bar>"
  shows "ulp_exp x \<le> ulp_exp y"
proof -
  have "log 2 \<bar>x\<bar> \<le> log 2 \<bar>y\<bar>" using assms by simp
  then have "\<lfloor>log 2 \<bar>x\<bar>\<rfloor> \<le> \<lfloor>log 2 \<bar>y\<bar>\<rfloor>" by (rule floor_mono)
  then show ?thesis by (simp add: ulp_exp_def)
qed

lemma ulp_exp_le:
  assumes "x \<noteq> 0" "\<bar>x\<bar> < 2 powi (E + 1)" "- 1022 \<le> E"
  shows "ulp_exp x \<le> E - 52"
proof -
  have "2 powi \<lfloor>log 2 \<bar>x\<bar>\<rfloor> < (2::real) powi (E + 1)"
    using floor_log2_bounds(1)[OF assms(1)] assms(2) by linarith
  then have "\<lfloor>log 2 \<bar>x\<bar>\<rfloor> < E + 1"
    using two_powi_mono[of "E + 1" "\<lfloor>log 2 \<bar>x\<bar>\<rfloor>"] by (cases "\<lfloor>log 2 \<bar>x\<bar>\<rfloor> < E + 1") auto
  then show ?thesis using assms(3) by (simp add: ulp_exp_def)
qed

lemma float64_same_ulp:
  assumes "x \<noteq> 0" "y \<noteq> 0" "ulp_exp x = ulp_exp y" "x \<le> y"
  shows "float64 x \<le> float64 y"
proof -
  have "x / 2 powi ulp_exp y \<le> y / 2 powi ulp_exp y"
    using assms(4) by (simp add: divide_right_mono)
  then have "rhe (x / 2 powi ulp_exp y) \<le> rhe (y / 2 powi ulp_exp y)" by (rule rhe_mono)
  then have "real_of_int (rhe (x / 2 powi ulp_exp y)) * 2 powi ulp_exp y
             \<le> real_of_int (rhe (y / 2 powi ulp_exp y)) * 2 powi ulp_exp y"
    by (simp add: mult_right_mono)
  then show ?thesis using assms(1,2,3) by (simp add: float64_def)
qed

text \<open>Bounding by a multiple of a coarser unit.\<close>

lemma float64_le_multiple:
  assumes "x \<noteq> 0" "x \<le> of_int n * 2 powi k" "ulp_exp x \<le> k"
  shows "float64 x \<le> of_int n * 2 powi k"
proof -
  define m where "m = nat (k - ulp_exp x)"
  have k: "k = int m + ulp_exp x" using assms(3) by (simp add: m_def)
  have e: "of_int n * (2::real) powi k = of_int (n * 2 ^ m) * 2 powi ulp_exp x"
    unfolding k by (simp add: two_powi_add)
  show ?thesis unfolding e by (rule float64_le[OF assms(1)]) (use assms(2) e in simp)
qed

lemma float64_ge_multiple:
  assumes "x \<noteq> 0" "of_int n * 2 powi k \<le> x" "ulp_exp x \<le> k"
  shows "of_int n * 2 powi k \<le> float64 x"
proof -
  define m where "m = nat (k - ulp_exp x)"
  have k: "k = int m + ulp_exp x" using assms(3) by (simp add: m_def)
  have e: "of_int n * (2::real) powi k = of_int (n * 2 ^ m) * 2 powi ulp_exp x"
    unfolding k by (simp add: two_powi_add)
  show ?thesis unfolding e by (rule float64_ge[OF assms(1)]) (use assms(2) e in simp)
qed

lemma float64_nonneg: "0 \<le> x \<Longrightarrow> 0 \<le> float64 x"
  using float64_ge[of x 0] by (cases "x = 0") simp_all

lemma float64_nonpos: "x \<le> 0 \<Longrightarrow> float64 x \<le> 0"
  using float64_le[of x 0] by (cases "x = 0") simp_all

lemma float64_mono_pos:
  assumes "0 < x" "x \<le> y"
  shows "float64 x \<le> float64 y"
proof (cases "ulp_exp x = ulp_exp y")
  case True
  then show ?thesis using assms by (intro float64_same_ulp) auto
next
  case False
  have x0: "x \<noteq> 0" and y0: "y \<noteq> 0" using assms by auto
  have "ulp_exp x \<le> ulp_exp y" using assms by (intro ulp_exp_mono) auto
  then have lt: "ulp_exp x < ulp_exp y" using False by simp
  have "- 1074 \<le> ulp_exp x" by (simp add: ulp_exp_def)
  then have "- 1074 < ulp_exp y" using lt by simp
  then have ylow: "2 powi (ulp_exp y + 52) \<le> y"
    using ulp_exp_lower[OF y0] assms by simp
  have "x < 2 powi (ulp_exp x + 53)" using ulp_exp_upper[OF x0] assms by simp
  also have "\<dots> \<le> 2 powi (ulp_exp y + 52)" using lt by (intro two_powi_mono) simp
  finally have xb: "x \<le> of_int 1 * 2 powi (ulp_exp y + 52)" by simp
  have "float64 x \<le> of_int 1 * 2 powi (ulp_exp y + 52)"
    using lt by (intro float64_le_multiple[OF x0 xb]) simp
  moreover have "of_int 1 * 2 powi (ulp_exp y + 52) \<le> float64 y"
    using ylow by (intro float64_ge_multiple[OF y0]) simp_all
  ultimately show ?thesis by linarith
qed

lemma float64_mono_neg:
  assumes "y < 0" "x \<le> y"
  shows "float64 x \<le> float64 y"
proof (cases "ulp_exp x = ulp_exp y")
  case True
  then show ?thesis using assms by (intro float64_same_ulp) auto
next
  case False
  have x0: "x \<noteq> 0" and y0: "y \<noteq> 0" using assms by auto
  have "ulp_exp y \<le> ulp_exp x" using assms by (intro ulp_exp_mono) auto
  then have lt: "ulp_exp y < ulp_exp x" using False by simp
  have "- 1074 \<le> ulp_exp y" by (simp add: ulp_exp_def)
  then have "- 1074 < ulp_exp x" using lt by simp
  then have "2 powi (ulp_exp x + 52) \<le> - x"
    using ulp_exp_lower[OF x0] assms by simp
  then have xb: "x \<le> of_int (- 1) * 2 powi (ulp_exp x + 52)" by simp
  have "- y < 2 powi (ulp_exp y + 53)" using ulp_exp_upper[OF y0] assms by simp
  also have "\<dots> \<le> 2 powi (ulp_exp x + 52)" using lt by (intro two_powi_mono) simp
  finally have yb: "of_int (- 1) * 2 powi (ulp_exp x + 52) \<le> y" by simp
  have "float64 x \<le> of_int (- 1) * 2 powi (ulp_exp x + 52)"
    by (intro float64_le_multiple[OF x0 xb]) simp
  moreover have "of_int (- 1) * 2 powi (ulp_exp x + 52) \<le> float64 y"
    using lt by (intro float64_ge_multiple[OF y0 yb]) simp
  ultimately show ?thesis by linarith
qed

lemma float64_mono:
  assumes "x \<le> y"
  shows "float64 x \<le> float64 y"
proof -
  consider "0 < x" | "y < 0" | "x \<le> 0" "0 \<le> y" by linarith
  then show ?thesis
  proof cases
    case 1 then show ?thesis using assms by (rule float64_mono_pos)
  next
    case 2 then show ?thesis using assms by (rule float64_mono_neg)
  next
    case 3
    then show ?thesis using float64_nonpos[of x] float64_nonneg[of y] by linarith
  qed
qed

lemma rhe_numeral [simp]: "rhe (numeral n) = numeral n"
  using rhe_of_int[of "numeral n"] by simp

lemma rhe_neg_numeral [simp]: "rhe (- numeral n) = - numeral n"
  using rhe_of_int[of "- numeral n"] by simp

lemma rhe_0 [simp]: "rhe 0 = 0"
  using rhe_of_int[of 0] by simp

lemma rhe_1 [simp]: "rhe 1 = 1"
  using rhe_of_int[of 1] by simp

lemma float64_1: "float64 1 = 1"
  by (subst float64_eval[of 0]) simp_all

lemma float64_m1: "float64 (- 1) = - 1"
  by (subst float64_eval[of 0]) simp_all

lemma float64_4: "float64 4 = 4"
  by (subst float64_eval[of 2]) simp_all

lemma float64_6: "float64 6 = 6"
  by (subst float64_eval[of 2]) simp_all

lemma float64_10: "float64 10 = 10"
  by (subst float64_eval[of 3]) simp_all

lemma float64_cent: "float64 (1 / 100) = 5764607523034235 / 2 ^ 59"
  by (subst float64_eval[of "- 7"]) (simp_all add: rhe_def Let_def power_int_minus)

subsection \<open>Rectangular pulse\<close>

lemma pulso_float:
  "generar_pulso_rectangular (FloatArr ts) w A c =
     FloatArr (map (\<lambda>\<tau>. if float64 (c - float64 (w / 2)) \<le> \<tau> \<and> \<tau> \<le> float64 (c + float64 (w / 2))
                         then A else 0) ts)"
proof -
  have "map (\<lambda>(m, x). if m then A else x)
          (zip (map (\<lambda>\<tau>. p \<tau>) ts) (replicate (length ts) (0::real)))
        = map (\<lambda>\<tau>. if p \<tau> then A else 0) ts" for p
    by (rule nth_equalityI) simp_all
  then show ?thesis by (simp add: generar_pulso_rectangular_def Let_def)
qed

lemma pulso_int:
  "generar_pulso_rectangular (IntArr ks) w A c =
     IntArr (map (\<lambda>k. if float64 (c - float64 (w / 2)) \<le> float64 (real_of_int k)
                          \<and> float64 (real_of_int k) \<le> float64 (c + float64 (w / 2))
                       then py_int A else 0) ks)"
proof -
  have "map (\<lambda>(m, x). if m then py_int A else x)
          (zip (map (\<lambda>k. p k) ks) (replicate (length ks) (0::int)))
        = map (\<lambda>k. if p k then py_int A else 0) ks" for p
    by (rule nth_equalityI) simp_all
  then show ?thesis by (simp add: generar_pulso_rectangular_def Let_def comp_def)
qed

lemma bounds_ordered:
  assumes "0 \<le> w"
  shows "float64 (c - float64 (w / 2)) \<le> float64 (c + float64 (w / 2))"
proof -
  have "0 \<le> float64 (w / 2)" using assms by (intro float64_nonneg) simp
  then show ?thesis by (intro float64_mono) simp
qed

lemma bounds_crossed:
  assumes "w < 0"
  shows "float64 (c + float64 (w / 2)) \<le> float64 (c - float64 (w / 2))"
proof -
  have "float64 (w / 2) \<le> 0" using assms by (intro float64_nonpos) simp
  then show ?thesis by (intro float64_mono) simp
qed


lemma as_float_zeros_like: "as_float (zeros_like t) = replicate (length (as_float t)) 0"
  by (cases t) (simp_all add: comp_def)

lemma pulso_empty_mask:
  assumes "float64 (c + float64 (w / 2)) < float64 (c - float64 (w / 2))"
  shows "generar_pulso_rectangular t w A c = zeros_like t"
proof (cases t)
  case (IntArr ks)
  have "map (\<lambda>k. if float64 (c - float64 (w / 2)) \<le> float64 (real_of_int k)
                          \<and> float64 (real_of_int k) \<le> float64 (c + float64 (w / 2))
                       then py_int A else 0) ks = replicate (length ks) 0"
    using assms by (intro nth_equalityI) auto
  then show ?thesis using IntArr by (simp add: pulso_int)
next
  case (FloatArr ts)
  have "map (\<lambda>\<tau>. if float64 (c - float64 (w / 2)) \<le> \<tau> \<and> \<tau> \<le> float64 (c + float64 (w / 2))
                         then A else 0) ts = replicate (length ts) 0"
    using assms by (intro nth_equalityI) auto
  then show ?thesis using FloatArr by (simp add: pulso_float)
qed

lemma pulso_nonzero_in_bounds:
  assumes "i < length (as_float t)" "as_float (generar_pulso_rectangular t w A c) ! i \<noteq> 0"
  shows "float64 (c - float64 (w / 2)) \<le> as_float t ! i \<and>
         as_float t ! i \<le> float64 (c + float64 (w / 2))"
proof (cases t)
  case (IntArr ks)
  then show ?thesis using assms by (auto simp add: pulso_int split: if_splits)
next
  case (FloatArr ts)
  then show ?thesis using assms by (auto simp add: pulso_float split: if_splits)
qed


text \<open>
  Claim C9 does not hold as stated. On the integer grid \<open>[-2, -1, 0, 1, 2]\<close> the signal
  inherits the integer dtype and the amplitude \<open>2.5\<close> is stored as \<open>2\<close>. On a float grid
  a sample is compared with the rounded bounds: with centre 1 and width
  \<open>2^-52 - 2^-79\<close> the grid point \<open>1 - 2^-53\<close> lies below \<open>centro - ancho/2\<close> and still
  receives the amplitude, because that bound rounds down to the grid point.
\<close>

theorem C9_dtype_and_rounding_counterexample:
  "generar_pulso_rectangular (IntArr [- 2, - 1, 0, 1, 2]) 2 (5 / 2) 0 = IntArr [0, 2, 2, 2, 0] \<and>
   generar_pulso_rectangular (FloatArr [1 - 1 / 2 ^ 53]) (1 / 2 ^ 52 - 1 / 2 ^ 79) 7 1 = FloatArr [7] \<and>
   \<not> (1 - (1 / 2 ^ 52 - 1 / 2 ^ 79) / 2 \<le> (1 - 1 / 2 ^ 53 :: real))"
proof (intro conjI)
  have half: "float64 (2 / 2) = 1" using float64_1 by simp
  have lo: "float64 (0 - 1) = - 1" using float64_m1 by simp
  have hi: "float64 (0 + 1) = 1" using float64_1 by simp
  have f2: "float64 (real_of_int (- 2)) = - 2" by (subst float64_eval[of 1]) simp_all
  have f2': "float64 (real_of_int 2) = 2" by (subst float64_eval[of 1]) simp_all
  have f1: "float64 (real_of_int 1) = 1" "float64 (real_of_int (- 1)) = - 1"
    using float64_1 float64_m1 by simp_all
  show "generar_pulso_rectangular (IntArr [- 2, - 1, 0, 1, 2]) 2 (5 / 2) 0 = IntArr [0, 2, 2, 2, 0]"
    unfolding pulso_int half lo hi list.map f2 f2' f1 by (simp add: py_int_def)
next
  have h: "float64 ((1 / 2 ^ 52 - 1 / 2 ^ 79) / 2) = 1 / 2 ^ 53 - 1 / 2 ^ 80"
    by (subst float64_eval[of "- 54"]) (simp_all add: power_int_minus)
  have lo: "float64 (1 - (1 / 2 ^ 53 - 1 / 2 ^ 80)) = 1 - 1 / 2 ^ 53"
    by (subst float64_eval[of "- 1"]) (simp_all add: rhe_def Let_def power_int_minus)
  have hi: "float64 (1 + (1 / 2 ^ 53 - 1 / 2 ^ 80)) = 1"
    by (subst float64_eval[of 0]) (simp_all add: rhe_def Let_def power_int_minus)
  show "generar_pulso_rectangular (FloatArr [1 - 1 / 2 ^ 53]) (1 / 2 ^ 52 - 1 / 2 ^ 79) 7 1 = FloatArr [7]"
    unfolding pulso_float h lo hi by simp
next
  show "\<not> (1 - (1 / 2 ^ 52 - 1 / 2 ^ 79) / 2 \<le> (1 - 1 / 2 ^ 53 :: real))" by simp
qed

text \<open>
  Claim C9, amended. On every float time grid, for every width, amplitude and centre,
  the rectangular pulse is a float signal of the length of the grid whose sample at grid
  point \<open>\<tau>\<close> is the amplitude when \<open>lo \<le> \<tau> \<le> hi\<close> and 0 otherwise, where \<open>lo\<close> and
  \<open>hi\<close> are the doubles that \<open>centro - ancho/2\<close> and \<open>centro + ancho/2\<close> evaluate to.
  When these two and \<open>ancho/2\<close> are computed without rounding, that is the closed
  interval of the claim. A grid point that is exactly one of the two endpoints receives
  the amplitude (for a width that is not negative and halves without rounding).
\<close>

theorem C9_pulso_rounded_interval:
  "generar_pulso_rectangular (FloatArr ts) w A c =
     FloatArr (map (\<lambda>\<tau>. if float64 (c - float64 (w / 2)) \<le> \<tau> \<and> \<tau> \<le> float64 (c + float64 (w / 2))
                         then A else 0) ts) \<and>
   (float64 (w / 2) = w / 2 \<and> float64 (c - w / 2) = c - w / 2 \<and> float64 (c + w / 2) = c + w / 2 \<longrightarrow>
      generar_pulso_rectangular (FloatArr ts) w A c =
        FloatArr (map (\<lambda>\<tau>. if c - w / 2 \<le> \<tau> \<and> \<tau> \<le> c + w / 2 then A else 0) ts)) \<and>
   (\<forall>i < length ts.
      0 \<le> w \<and> float64 (w / 2) = w / 2 \<and> float64 (ts ! i) = ts ! i \<and>
      (ts ! i = c - w / 2 \<or> ts ! i = c + w / 2) \<longrightarrow>
      as_float (generar_pulso_rectangular (FloatArr ts) w A c) ! i = A)"
proof (intro conjI impI allI)
  show "generar_pulso_rectangular (FloatArr ts) w A c =
     FloatArr (map (\<lambda>\<tau>. if float64 (c - float64 (w / 2)) \<le> \<tau> \<and> \<tau> \<le> float64 (c + float64 (w / 2))
                         then A else 0) ts)"
    by (rule pulso_float)
next
  assume "float64 (w / 2) = w / 2 \<and> float64 (c - w / 2) = c - w / 2 \<and> float64 (c + w / 2) = c + w / 2"
  then have e: "float64 (w / 2) = w / 2" "float64 (c - w / 2) = c - w / 2"
      "float64 (c + w / 2) = c + w / 2" by blast+
  show "generar_pulso_rectangular (FloatArr ts) w A c =
        FloatArr (map (\<lambda>\<tau>. if c - w / 2 \<le> \<tau> \<and> \<tau> \<le> c + w / 2 then A else 0) ts)"
    by (simp only: pulso_float e)
next
  fix i
  assume i: "i < length ts"
    and h: "0 \<le> w \<and> float64 (w / 2) = w / 2 \<and> float64 (ts ! i) = ts ! i \<and>
            (ts ! i = c - w / 2 \<or> ts ! i = c + w / 2)"
  let ?lo = "float64 (c - float64 (w / 2))" and ?hi = "float64 (c + float64 (w / 2))"
  have ord: "?lo \<le> ?hi" using h by (intro bounds_ordered) simp
  from h have hw: "float64 (w / 2) = w / 2" and ht: "float64 (ts ! i) = ts ! i"
    and ends: "ts ! i = c - w / 2 \<or> ts ! i = c + w / 2" by blast+
  from ends have "ts ! i = ?lo \<or> ts ! i = ?hi"
  proof
    assume e: "ts ! i = c - w / 2"
    have "?lo = float64 (ts ! i)" unfolding hw e ..
    then show ?thesis using ht by simp
  next
    assume e: "ts ! i = c + w / 2"
    have "?hi = float64 (ts ! i)" unfolding hw e ..
    then show ?thesis using ht by simp
  qed
  then have "?lo \<le> ts ! i \<and> ts ! i \<le> ?hi" using ord by auto
  then show "as_float (generar_pulso_rectangular (FloatArr ts) w A c) ! i = A"
    using i by (simp add: pulso_float)
qed

theorem C9_pulso_rounded_interval_witness:
  "generar_pulso_rectangular (FloatArr [- 2, - 1, 0, 1, 2]) 2 7 0 = FloatArr [0, 7, 7, 7, 0] \<and>
   (0 \<le> (2::real) \<and> float64 (2 / 2) = 2 / 2 \<and> float64 (- 1) = - 1 \<and> (- 1 :: real) = 0 - 2 / 2) \<and>
   as_float (generar_pulso_rectangular (FloatArr [- 2, - 1, 0, 1, 2]) 2 7 0) ! 1 = 7 \<and>
   generar_pulso_rectangular (FloatArr [- 2, - 1, 0, 1, 2]) 2 7 0 =
      FloatArr (map (\<lambda>\<tau>. if 0 - 2 / 2 \<le> \<tau> \<and> \<tau> \<le> 0 + 2 / 2 then 7 else 0) [- 2, - 1, 0, 1, 2 :: real])"
proof -
  note w = C9_pulso_rounded_interval [of "[- 2, - 1, 0, 1, 2]" 2 7 0]
  have a: "generar_pulso_rectangular (FloatArr [- 2, - 1, 0, 1, 2]) 2 7 0 = FloatArr [0, 7, 7, 7, 0]"
    using conjunct1[OF w] by (simp add: float64_1 float64_m1)
  have h: "0 \<le> (2::real) \<and> float64 (2 / 2) = 2 / 2 \<and> float64 (- 1) = - 1 \<and> (- 1 :: real) = 0 - 2 / 2"
    by (simp add: float64_1 float64_m1)
  have i: "(1::nat) < length [- 2, - 1, 0, 1, 2 :: real]" by simp
  have n: "[- 2, - 1, 0, 1, 2 :: real] ! 1 = - 1" by simp
  have p: "0 \<le> (2::real) \<and> float64 (2 / 2) = 2 / 2 \<and>
           float64 ([- 2, - 1, 0, 1, 2] ! 1) = [- 2, - 1, 0, 1, 2] ! 1 \<and>
           ([- 2, - 1, 0, 1, 2 :: real] ! 1 = 0 - 2 / 2 \<or> [- 2, - 1, 0, 1, 2 :: real] ! 1 = 0 + 2 / 2)"
    unfolding n using h by simp
  have b: "as_float (generar_pulso_rectangular (FloatArr [- 2, - 1, 0, 1, 2]) 2 7 0) ! 1 = 7"
    using conjunct2[OF conjunct2[OF w], rule_format, OF i p] .
  have x: "float64 (2 / 2) = 2 / 2 \<and> float64 (0 - 2 / 2) = 0 - 2 / 2 \<and> float64 (0 + 2 / 2) = 0 + 2 / 2"
    by (simp add: float64_1 float64_m1)
  have c: "generar_pulso_rectangular (FloatArr [- 2, - 1, 0, 1, 2]) 2 7 0 =
      FloatArr (map (\<lambda>\<tau>. if 0 - 2 / 2 \<le> \<tau> \<and> \<tau> \<le> 0 + 2 / 2 then 7 else 0) [- 2, - 1, 0, 1, 2 :: real])"
    using conjunct1[OF conjunct2[OF w], rule_format, OF x] .
  show ?thesis using a h b c by blast
qed

lemma absorbed_half: "float64 (- (1 / 2 ^ 60) / 2) = - (1 / 2 ^ 61)"
  by (subst float64_eval[of "- 61"]) (simp_all add: power_int_minus)

lemma absorbed_lo: "float64 (1 - - (1 / 2 ^ 61)) = 1"
  by (subst float64_eval[of 0]) (simp_all add: rhe_def Let_def power_int_minus)

lemma absorbed_hi: "float64 (1 + - (1 / 2 ^ 61)) = 1"
  by (subst float64_eval[of "- 1"]) (simp_all add: rhe_def Let_def power_int_minus)

lemma absorbed_pulse:
  "generar_pulso_rectangular (FloatArr [1]) (- (1 / 2 ^ 60)) 5 1 = FloatArr [5]"
  unfolding pulso_float absorbed_half absorbed_lo absorbed_hi by simp

text \<open>
  Claim C10 does not hold as stated: for the width \<open>-2^-60\<close> and the centre 1 both
  bounds round to 1, and the grid point 1 receives the amplitude.
\<close>

theorem C10_absorbed_width_counterexample:
  "- (1 / 2 ^ 60) < (0::real) \<and>
   generar_pulso_rectangular (FloatArr [1]) (- (1 / 2 ^ 60)) 5 1 = FloatArr [5]"
  using absorbed_pulse by simp

text \<open>
  Claim C10, amended. For a strictly negative width, on every grid and for every
  amplitude and centre, the upper bound the generator computes is never above the lower
  one. When it is strictly below, as it always is in exact arithmetic, the generator
  returns the all-zero signal. Otherwise both bounds are one double, and a sample that is
  not zero sits on a grid point equal to it.
\<close>

theorem C10_pulso_negative_width:
  assumes "w < 0"
  shows "float64 (c + float64 (w / 2)) \<le> float64 (c - float64 (w / 2)) \<and>
         (float64 (c + float64 (w / 2)) < float64 (c - float64 (w / 2)) \<longrightarrow>
            generar_pulso_rectangular t w A c = zeros_like t) \<and>
         (\<forall>i < length (as_float t).
            as_float (generar_pulso_rectangular t w A c) ! i \<noteq> 0 \<longrightarrow>
            as_float t ! i = float64 (c - float64 (w / 2)) \<and>
            as_float t ! i = float64 (c + float64 (w / 2)))"
proof (intro conjI impI allI)
  show c: "float64 (c + float64 (w / 2)) \<le> float64 (c - float64 (w / 2))"
    by (rule bounds_crossed[OF assms])
  show "generar_pulso_rectangular t w A c = zeros_like t"
    if "float64 (c + float64 (w / 2)) < float64 (c - float64 (w / 2))"
    using that by (rule pulso_empty_mask)
  fix i assume i: "i < length (as_float t)"
    and nz: "as_float (generar_pulso_rectangular t w A c) ! i \<noteq> 0"
  from pulso_nonzero_in_bounds[OF i nz] c
  show "as_float t ! i = float64 (c - float64 (w / 2))"
    and "as_float t ! i = float64 (c + float64 (w / 2))" by linarith+
qed

theorem C10_pulso_negative_width_witness:
  "(- 2 :: real) < 0 \<and> float64 (0 + float64 (- 2 / 2)) < float64 (0 - float64 (- 2 / 2)) \<and>
   generar_pulso_rectangular (FloatArr [- 1, 0, 1]) (- 2) 5 0 = FloatArr [0, 0, 0] \<and>
   - (1 / 2 ^ 60) < (0 :: real) \<and>
   as_float (generar_pulso_rectangular (FloatArr [1]) (- (1 / 2 ^ 60)) 5 1) ! 0 \<noteq> 0 \<and>
   as_float (FloatArr [1]) ! 0 = float64 (1 - float64 (- (1 / 2 ^ 60) / 2)) \<and>
   as_float (FloatArr [1]) ! 0 = float64 (1 + float64 (- (1 / 2 ^ 60) / 2))"
proof -
  have h: "(- 2 :: real) < 0" by simp
  have b: "float64 (0 + float64 (- 2 / 2)) < float64 (0 - float64 (- 2 / 2))"
    by (simp add: float64_1 float64_m1)
  have "generar_pulso_rectangular (FloatArr [- 1, 0, 1]) (- 2) 5 0 = zeros_like (FloatArr [- 1, 0, 1])"
    using C10_pulso_negative_width [OF h, of 0 "FloatArr [- 1, 0, 1]" 5] b by blast
  then have z: "generar_pulso_rectangular (FloatArr [- 1, 0, 1]) (- 2) 5 0 = FloatArr [0, 0, 0]"
    by simp
  have h2: "- (1 / 2 ^ 60) < (0 :: real)" by simp
  have i: "0 < length (as_float (FloatArr [1]))" by simp
  have nz: "as_float (generar_pulso_rectangular (FloatArr [1]) (- (1 / 2 ^ 60)) 5 1) ! 0 \<noteq> 0"
    unfolding absorbed_pulse by simp
  have e: "as_float (FloatArr [1]) ! 0 = float64 (1 - float64 (- (1 / 2 ^ 60) / 2)) \<and>
           as_float (FloatArr [1]) ! 0 = float64 (1 + float64 (- (1 / 2 ^ 60) / 2))"
    using C10_pulso_negative_width [OF h2, of 1 "FloatArr [1]" 5, THEN conjunct2, THEN conjunct2,
        rule_format, OF i nz] .
  show ?thesis using h b z h2 nz e by blast
qed

subsection \<open>The grid and the pulse of the main scenario\<close>

lemma main_next: "float64 (- 5 + float64 main_dt) = - 2809120267572347 / 2 ^ 49"
  unfolding main_dt_def float64_cent
  by (subst float64_eval[of 2]) (simp_all add: rhe_def Let_def power_int_minus)

lemma main_delta_eq: "float64 (- 2809120267572347 / 2 ^ 49 - (- 5)) = main_delta"
  unfolding main_delta_def
  by (subst float64_eval[of "- 7"]) (simp_all add: power_int_minus)

lemma main_len: "nat \<lceil>float64 (float64 (5 - (- 5)) / float64 main_dt)\<rceil> = 1000"
proof -
  have a: "float64 (5 - (- 5)) = 10" using float64_10 by simp
  have b: "float64 (10 / (5764607523034235 / 2 ^ 59)) = 1000"
    by (subst float64_eval[of 9]) (simp_all add: rhe_def Let_def power_int_minus)
  show ?thesis unfolding a main_dt_def float64_cent b by simp
qed

lemma main_t_length: "length main_t = 1000"
  unfolding main_t_def arange_def Let_def main_len by simp

lemma main_t_nth:
  assumes "i < 1000"
  shows "main_t ! i = (if i = 0 then - 5 else if i = 1 then - 2809120267572347 / 2 ^ 49
                       else float64 (- 5 + float64 (real i * main_delta)))"
  unfolding main_t_def arange_def Let_def main_len main_next main_delta_eq
  using assms by simp

lemma f_a: "float64 (4 - 1 / 2 ^ 44) = 4 - 1 / 2 ^ 44"
  by (subst float64_eval[of 1]) (simp_all add: power_int_minus)

lemma f_b: "float64 (- 1 - 1 / 2 ^ 44) = - 1 - 1 / 2 ^ 44"
  by (subst float64_eval[of 0]) (simp_all add: power_int_minus)

lemma f_c: "float64 (6 + 1 / 128) = 6 + 1 / 128"
  by (subst float64_eval[of 2]) (simp_all add: power_int_minus)

lemma f_d: "float64 (1 + 1 / 128) = 1 + 1 / 128"
  by (subst float64_eval[of 0]) (simp_all add: power_int_minus)

lemma grid_low:
  assumes "2 \<le> i" "i \<le> 400"
  shows "float64 (- 5 + float64 (real i * main_delta)) < - 1"
proof -
  have d: "0 \<le> main_delta" by (simp add: main_delta_def)
  have "real i * main_delta \<le> 400 * main_delta" using assms(2) d by (intro mult_right_mono) simp_all
  also have "\<dots> \<le> 4 - 1 / 2 ^ 44" by (simp add: main_delta_def)
  finally have "float64 (real i * main_delta) \<le> float64 (4 - 1 / 2 ^ 44)" by (rule float64_mono)
  then have "- 5 + float64 (real i * main_delta) \<le> - 1 - 1 / 2 ^ 44" unfolding f_a by simp
  then have "float64 (- 5 + float64 (real i * main_delta)) \<le> float64 (- 1 - 1 / 2 ^ 44)"
    by (rule float64_mono)
  then show ?thesis unfolding f_b by simp
qed

lemma grid_in:
  assumes "401 \<le> i" "i \<le> 600"
  shows "- 1 \<le> float64 (- 5 + float64 (real i * main_delta))"
    and "float64 (- 5 + float64 (real i * main_delta)) \<le> 1"
proof -
  have d: "0 \<le> main_delta" by (simp add: main_delta_def)
  have "4 \<le> 401 * main_delta" by (simp add: main_delta_def)
  also have "\<dots> \<le> real i * main_delta" using assms(1) d by (intro mult_right_mono) simp_all
  finally have "float64 4 \<le> float64 (real i * main_delta)" by (rule float64_mono)
  then have "- 1 \<le> - 5 + float64 (real i * main_delta)" unfolding float64_4 by simp
  then have "float64 (- 1) \<le> float64 (- 5 + float64 (real i * main_delta))" by (rule float64_mono)
  then show "- 1 \<le> float64 (- 5 + float64 (real i * main_delta))" unfolding float64_m1 .
  have "real i * main_delta \<le> 600 * main_delta" using assms(2) d by (intro mult_right_mono) simp_all
  also have "\<dots> \<le> 6" by (simp add: main_delta_def)
  finally have "float64 (real i * main_delta) \<le> float64 6" by (rule float64_mono)
  then have "- 5 + float64 (real i * main_delta) \<le> 1" unfolding float64_6 by simp
  then have "float64 (- 5 + float64 (real i * main_delta)) \<le> float64 1" by (rule float64_mono)
  then show "float64 (- 5 + float64 (real i * main_delta)) \<le> 1" unfolding float64_1 .
qed

lemma grid_high:
  assumes "601 \<le> i"
  shows "1 < float64 (- 5 + float64 (real i * main_delta))"
proof -
  have d: "0 \<le> main_delta" by (simp add: main_delta_def)
  have "6 + 1 / 128 \<le> 601 * main_delta" by (simp add: main_delta_def)
  also have "\<dots> \<le> real i * main_delta" using assms d by (intro mult_right_mono) simp_all
  finally have "float64 (6 + 1 / 128) \<le> float64 (real i * main_delta)" by (rule float64_mono)
  then have "1 + 1 / 128 \<le> - 5 + float64 (real i * main_delta)" unfolding f_c by simp
  then have "float64 (1 + 1 / 128) \<le> float64 (- 5 + float64 (real i * main_delta))"
    by (rule float64_mono)
  then show ?thesis unfolding f_d by simp
qed

lemma main_t_in_pulse:
  assumes "i < 1000"
  shows "(- 1 \<le> main_t ! i \<and> main_t ! i \<le> 1) \<longleftrightarrow> (401 \<le> i \<and> i \<le> 600)"
proof -
  consider "i = 0" | "i = 1" | "2 \<le> i" "i \<le> 400" | "401 \<le> i" "i \<le> 600" | "601 \<le> i"
    by linarith
  then show ?thesis
  proof cases
    case 1 then show ?thesis using main_t_nth[OF assms] by simp
  next
    case 2 then show ?thesis using main_t_nth[OF assms] by simp
  next
    case 3 then show ?thesis using main_t_nth[OF assms] grid_low[of i] by simp
  next
    case 4 then show ?thesis using main_t_nth[OF assms] grid_in[of i] by simp
  next
    case 5 then show ?thesis using main_t_nth[OF assms] grid_high[of i] by simp
  qed
qed

lemma main_pulso_length: "length main_pulso = 1000"
  by (simp add: main_pulso_def pulso_float main_t_length)

lemma main_pulso_nth:
  assumes "i < 1000"
  shows "main_pulso ! i = (if 401 \<le> i \<and> i \<le> 600 then 1 else 0)"
proof -
  have lo: "float64 (0 - float64 (2 / 2)) = - 1" using float64_1 float64_m1 by simp
  have hi: "float64 (0 + float64 (2 / 2)) = 1" using float64_1 by simp
  have "main_pulso ! i = (if - 1 \<le> main_t ! i \<and> main_t ! i \<le> 1 then 1 else 0)"
    unfolding main_pulso_def pulso_float lo hi using assms by (simp add: main_t_length)
  then show ?thesis using main_t_in_pulse[OF assms] by simp
qed

lemma main_pulso_sum: "sum_list main_pulso = 200"
proof -
  have "sum_list main_pulso = (\<Sum>i<1000. main_pulso ! i)"
    using sum_list_nth_conv[of "\<lambda>x. x" main_pulso] main_pulso_length by simp
  also have "\<dots> = (\<Sum>i<1000::nat. if i \<in> {401..600} then 1 else (0::real))"
    by (rule sum.cong) (simp_all add: main_pulso_nth)
  also have "\<dots> = real (card ({..<1000::nat} \<inter> {i. i \<in> {401..600}}))"
    by (simp only: sum.If_cases[OF finite_lessThan]) simp
  also have "{..<1000::nat} \<inter> {i. i \<in> {401..600}} = {401..600}" by auto
  finally show ?thesis by simp
qed

lemma main_dc:
  "\<exists>fs sp. calcular_transformada_fourier main_pulso main_dt = Inr (fs, sp) \<and>
     length fs = 1000 \<and> length sp = 1000 \<and> sorted_wrt (<) fs \<and>
     (\<exists>j<1000. fs ! j = 0) \<and>
     (\<forall>j<1000. fs ! j = 0 \<longrightarrow> sp ! j = 2)"
proof -
  let ?p = "ctf_idx 1000 main_dt"
  let ?D = "\<lambda>k. dft (map complex_of_real main_pulso) k * complex_of_real main_dt"
  have l: "length main_pulso = 1000" by (rule main_pulso_length)
  have ne: "main_pulso \<noteq> []" using l by auto
  have dt: "main_dt \<noteq> 0" by (simp add: main_dt_def)
  have t: "calcular_transformada_fourier main_pulso main_dt = Inr (map (bin_freq 1000 main_dt) ?p, map ?D ?p)"
    using calcular_eq[OF ne dt] l by simp
  have D0: "?D 0 = 2"
    by (simp add: dft_zero_bin main_pulso_sum main_dt_def)
  have "0 \<in> set ?p" by (simp add: ctf_idx_set)
  then obtain j where j: "j < length ?p" "?p ! j = 0" by (auto simp add: in_set_conv_nth)
  then have ex: "\<exists>j<1000. map (bin_freq 1000 main_dt) ?p ! j = 0"
    by (intro exI[of _ j]) (simp add: ctf_idx_length bin_freq_def)
  have all: "\<forall>j<1000. map (bin_freq 1000 main_dt) ?p ! j = 0 \<longrightarrow> map ?D ?p ! j = 2"
  proof (intro allI impI)
    fix j assume j: "j < 1000" and z: "map (bin_freq 1000 main_dt) ?p ! j = 0"
    have pj: "?p ! j < 1000" using j by (rule ctf_idx_nth_less)
    from z j have "bin_freq 1000 main_dt (?p ! j) = 0" by (simp add: ctf_idx_length)
    then have "?p ! j = 0" using bin_freq_zero_iff[OF pj dt] by simp
    then show "map ?D ?p ! j = 2" using j D0 by (simp add: ctf_idx_length)
  qed
  have s: "sorted_wrt (<) (map (bin_freq 1000 main_dt) ?p)" by (rule ctf_freqs_strict[OF dt])
  have ls: "length (map (bin_freq 1000 main_dt) ?p) = 1000" "length (map ?D ?p) = 1000"
    by (simp_all add: ctf_idx_length)
  show ?thesis using t ls s ex all by blast
qed

text \<open>
  Claim C3. The grid \<open>np.arange(-5, 5, 0.01)\<close> of \<open>main\<close> has 1000 samples; its sample
  400 is just below \<open>-1\<close>, so the pulse of width 2, amplitude 1 and centre 0 is 1 on the
  200 samples 401 to 600 and 0 elsewhere. The transform of that pulse with \<open>dt = 0.01\<close>
  returns pairwise distinct frequencies, one of them 0, and the magnitude of the spectrum
  there is \<open>width * amplitude = 2\<close>. With the double nearest to \<open>0.01\<close> as the step, the
  product of the 200 samples and the step rounds to the double 2 as well.
\<close>

theorem C3_dc_component:
  "length main_t = 1000 \<and>
   main_pulso = map (\<lambda>i. if 401 \<le> i \<and> i \<le> 600 then 1 else 0) [0 ..< 1000] \<and>
   (\<exists>fs sp j. calcular_transformada_fourier main_pulso main_dt = Inr (fs, sp) \<and>
      distinct fs \<and> j < length fs \<and> fs ! j = 0 \<and> cmod (sp ! j) = 2) \<and>
   float64 (200 * float64 main_dt) = 2"
proof (intro conjI)
  show "float64 (200 * float64 main_dt) = 2"
    unfolding main_dt_def float64_cent
    by (subst float64_eval[of 1]) (simp_all add: rhe_def Let_def power_int_minus)
  show "length main_t = 1000" by (rule main_t_length)
  show "main_pulso = map (\<lambda>i. if 401 \<le> i \<and> i \<le> 600 then 1 else 0) [0 ..< 1000]"
    by (rule nth_equalityI) (simp_all add: main_pulso_length main_pulso_nth)
  from main_dc obtain fs sp where
    t: "calcular_transformada_fourier main_pulso main_dt = Inr (fs, sp)"
    and l: "length fs = 1000" and s: "sorted_wrt (<) fs"
    and ex: "\<exists>j<1000. fs ! j = 0"
    and all: "\<forall>j<1000. fs ! j = 0 \<longrightarrow> sp ! j = 2" by blast
  from ex obtain j where j: "j < 1000" "fs ! j = 0" by blast
  with all have v: "sp ! j = 2" by blast
  have c: "cmod (sp ! j) = 2" unfolding v by simp
  have d: "distinct fs" using s by (simp add: strict_sorted_iff)
  show "\<exists>fs sp j. calcular_transformada_fourier main_pulso main_dt = Inr (fs, sp) \<and>
      distinct fs \<and> j < length fs \<and> fs ! j = 0 \<and> cmod (sp ! j) = 2"
    using t d j l c by auto
qed

subsection \<open>The shift of the time-shift verifier\<close>

lemma np_max_map:
  assumes "p \<noteq> []"
  shows "np_max (map g p) = Inr (Max (g ` set p))"
  using assms by (simp add: np_max_def)

lemma senal_desplazada_length: "length (senal_desplazada s dt t0) = length s"
  by (simp add: senal_desplazada_def roll_length)

text \<open>
  The value the time-shift verifier reports: the largest magnitude, over all bins, of the
  difference between the spectrum of the shifted signal and the predicted one.
\<close>

lemma desplazamiento_value:
  assumes "s \<noteq> []" "dt \<noteq> 0"
  shows "verificar_desplazamiento_tiempo t s dt t0 =
     Inr (Max ((\<lambda>k. cmod (dft (map complex_of_real (senal_desplazada s dt t0)) k * complex_of_real dt
                 - exp (- (2 * \<i>) * of_real pi * of_real (bin_freq (length s) dt k) * of_real t0)
                   * (dft (map complex_of_real s) k * complex_of_real dt))) ` {..<length s}))"
proof -
  let ?N = "length s" and ?p = "ctf_idx (length s) dt"
  let ?r = "senal_desplazada s dt t0"
  define D where "D = (\<lambda>k. dft (map complex_of_real s) k * complex_of_real dt)"
  define D' where "D' = (\<lambda>k. dft (map complex_of_real ?r) k * complex_of_real dt)"
  define W where "W = (\<lambda>k. exp (- (2 * \<i>) * of_real pi * of_real (bin_freq ?N dt k) * of_real t0))"
  have r: "?r \<noteq> []" "length ?r = ?N" using assms(1) senal_desplazada_length[of s dt t0] by auto
  have t1: "calcular_transformada_fourier s dt = Inr (map (bin_freq ?N dt) ?p, map D ?p)"
    unfolding D_def by (rule calcular_eq[OF assms])
  have t2: "calcular_transformada_fourier ?r dt = Inr (map (bin_freq ?N dt) ?p, map D' ?p)"
    unfolding D'_def using calcular_eq[OF r(1) assms(2)] r(2) by simp
  have f: "map (\<lambda>f. exp (- (2 * \<i>) * of_real pi * of_real f * of_real t0)) (map (bin_freq ?N dt) ?p)
           = map W ?p"
    unfolding W_def by simp
  have te: "broadcast (*) (map W ?p) (map D ?p) = Inr (map (\<lambda>k. W k * D k) ?p)"
    by (rule broadcast_maps)
  have df: "broadcast (-) (map D' ?p) (map (\<lambda>k. W k * D k) ?p) = Inr (map (\<lambda>k. D' k - W k * D k) ?p)"
    by (rule broadcast_maps)
  have p: "?p \<noteq> []" using assms(1) by (simp add: ctf_idx_nonempty)
  have mx: "np_max (map cmod (map (\<lambda>k. D' k - W k * D k) ?p))
            = Inr (Max ((\<lambda>k. cmod (D' k - W k * D k)) ` {..<?N}))"
    using np_max_map[OF p, of "\<lambda>k. cmod (D' k - W k * D k)"] by (simp add: comp_def ctf_idx_set)
  have "verificar_desplazamiento_tiempo t s dt t0 = Inr (Max ((\<lambda>k. cmod (D' k - W k * D k)) ` {..<?N}))"
    unfolding verificar_desplazamiento_tiempo_def Let_def t1 t2 bind_err_Inr prod.case f te df
    using assms(2) mx by simp
  then show ?thesis unfolding D_def D'_def W_def .
qed


lemma f_070: "float64 (7 / 10) = 3152519739159347 / 2 ^ 52"
  by (subst float64_eval[of "- 1"]) (simp_all add: rhe_def Let_def power_int_minus)

lemma f_210: "float64 (3 * (3152519739159347 / 2 ^ 52)) = 1182194902184755 / 2 ^ 49"
  by (subst float64_eval[of 1]) (simp_all add: rhe_def Let_def power_int_minus)

lemma f_q3: "float64 (1182194902184755 / 2 ^ 49 / (3152519739159347 / 2 ^ 52)) = 6755399441055743 / 2 ^ 51"
  by (subst float64_eval[of 1]) (simp_all add: rhe_def Let_def power_int_minus)

lemma f_029: "float64 (29 / 100) = 5224175567749775 / 2 ^ 54"
  by (subst float64_eval[of "- 2"]) (simp_all add: rhe_def Let_def power_int_minus)

lemma f_q29: "float64 (5224175567749775 / 2 ^ 54 / (5764607523034235 / 2 ^ 59)) = 8162774324609023 / 2 ^ 48"
  by (subst float64_eval[of 4]) (simp_all add: rhe_def Let_def power_int_minus)

lemma f_075: "float64 (3 / 4) = 3 / 4"
  by (subst float64_eval[of "- 1"]) (simp_all add: power_int_minus)

text \<open>
  Claim C2 at two failing inputs. The verifier shifts by \<open>int(t0/dt)\<close>, which truncates
  the double quotient. For \<open>t0 = 0.75\<close>, \<open>dt = 1\<close> it shifts the signal \<open>[1, 0]\<close> by 0
  samples where the shift by \<open>round(t0/dt) = 1\<close> gives \<open>[0, 1]\<close>. For the whole number of
  steps \<open>t0 = 0.29\<close>, \<open>dt = 0.01\<close> the quotient is the double just below 29, and the
  verifier shifts by 28 samples where \<open>round\<close> gives 29.
\<close>

theorem C2_truncated_shift:
  "senal_desplazada [1, 0] 1 (3 / 4) = [1, 0] \<and>
   roll [1, 0 :: real] (round (3 / 4 / (1 :: real))) = [0, 1] \<and>
   senal_desplazada [1, 0] (float64 (1 / 100)) (float64 (29 / 100)) = [1, 0] \<and>
   roll [1, 0 :: real] (round (float64 (29 / 100) / float64 (1 / 100))) = [0, 1]"
proof (intro conjI)
  show "senal_desplazada [1, 0] 1 (3 / 4) = [1, 0]"
    by (simp add: senal_desplazada_def f_075 py_int_def roll_def Let_def)
  show "roll [1, 0 :: real] (round (3 / 4 / (1 :: real))) = [0, 1]"
    by (simp add: roll_def round_def Let_def)
  have "py_int (8162774324609023 / 2 ^ 48) = 28" by (simp add: py_int_def)
  then show "senal_desplazada [1, 0] (float64 (1 / 100)) (float64 (29 / 100)) = [1, 0]"
    unfolding senal_desplazada_def float64_cent f_029 f_q29 by (simp add: roll_def Let_def)
  have "round (5224175567749775 / 2 ^ 54 / (5764607523034235 / 2 ^ 59) :: real) = 29"
    by (simp add: round_def)
  then show "roll [1, 0 :: real] (round (float64 (29 / 100) / float64 (1 / 100))) = [0, 1]"
    unfolding float64_cent f_029 by (simp add: roll_def Let_def)
qed

lemma twiddle_4_2: "twiddle 4 2 = - 1"
proof -
  have "twiddle 4 2 = cis (- pi)" by (simp add: twiddle_def)
  also have "\<dots> = cnj (cis pi)" by (simp only: cis_cnj)
  finally show ?thesis by simp
qed

lemma twiddle_4_4: "twiddle 4 4 = 1"
  using twiddle_multiple[of 4 1] by simp

lemma twiddle_4_6: "twiddle 4 6 = - 1"
proof -
  have "twiddle 4 (2 + 4) = twiddle 4 2 * twiddle 4 4" by (rule twiddle_add)
  then show ?thesis by (simp add: twiddle_4_2 twiddle_4_4)
qed

lemma lessThan_4: "{..<4::nat} = {0, 1, 2, 3}"
  by auto

lemma dft_1234_bin2: "dft (map complex_of_real [1, 2, 3, 4]) 2 = - 2"
proof -
  have l: "length (map complex_of_real [1, 2, 3, 4]) = 4" by simp
  have "dft (map complex_of_real [1, 2, 3, 4]) 2
        = (\<Sum>m\<in>{0, 1, 2, 3}. map complex_of_real [1, 2, 3, 4] ! m * twiddle 4 (int m * int 2))"
    unfolding dft_twiddle l lessThan_4 ..
  also have "\<dots> = 1 * twiddle 4 0 + 2 * twiddle 4 2 + 3 * twiddle 4 4 + 4 * twiddle 4 6"
    by simp
  finally show ?thesis by (simp add: twiddle_4_2 twiddle_4_4 twiddle_4_6)
qed

lemma dft_3412_bin2: "dft (map complex_of_real [3, 4, 1, 2]) 2 = - 2"
proof -
  have l: "length (map complex_of_real [3, 4, 1, 2]) = 4" by simp
  have "dft (map complex_of_real [3, 4, 1, 2]) 2
        = (\<Sum>m\<in>{0, 1, 2, 3}. map complex_of_real [3, 4, 1, 2] ! m * twiddle 4 (int m * int 2))"
    unfolding dft_twiddle l lessThan_4 ..
  also have "\<dots> = 3 * twiddle 4 0 + 4 * twiddle 4 2 + 1 * twiddle 4 4 + 2 * twiddle 4 6"
    by simp
  finally show ?thesis by (simp add: twiddle_4_2 twiddle_4_4 twiddle_4_6)
qed

lemma cos_near_3pi:
  assumes "5 / 2 \<le> q" "q \<le> 7 / 2"
  shows "cos (pi * q) \<le> 0"
proof -
  have "cos (pi * q) = cos (pi * (q - 3) + pi + 2 * pi)" by (simp add: algebra_simps)
  also have "\<dots> = cos (pi * (q - 3) + pi)" by (rule cos_periodic)
  also have "\<dots> = - cos (pi * (q - 3))" by (rule cos_periodic_pi)
  finally have e: "cos (pi * q) = - cos (pi * (q - 3))" .
  have "- (pi / 2) \<le> pi * (q - 3)"
  proof -
    have "pi * (- (1 / 2)) \<le> pi * (q - 3)" using assms(1) by (intro mult_left_mono) simp_all
    then show ?thesis by simp
  qed
  moreover have "pi * (q - 3) \<le> pi / 2"
  proof -
    have "pi * (q - 3) \<le> pi * (1 / 2)" using assms(2) by (intro mult_left_mono) simp_all
    then show ?thesis by simp
  qed
  ultimately have "0 \<le> cos (pi * (q - 3))" by (rule cos_ge_zero)
  then show ?thesis unfolding e by simp
qed

lemma one_minus_cis:
  assumes "cos x \<le> 0"
  shows "1 \<le> cmod (1 - cis x)"
proof -
  have "1 \<le> Re (1 - cis x)" using assms by simp
  also have "\<dots> \<le> cmod (1 - cis x)" by (rule complex_Re_le_cmod)
  finally show ?thesis .
qed

text \<open>
  Claim C6 at a failing input. For \<open>dt = 0.7\<close> and the shift \<open>t0 = 3 * 0.7\<close> the double
  quotient \<open>t0/dt\<close> is just below 3 and \<open>int\<close> truncates it to 2: the verifier transforms
  the signal \<open>[1, 2, 3, 4]\<close> shifted by 2 samples, not by 3, and the error it reports is at
  least 1 (the bin of frequency \<open>-1/(2 dt)\<close> alone contributes \<open>2 dt |1 - exp(i pi t0/dt)|\<close>).
\<close>

theorem C6_truncated_quotient:
  "senal_desplazada [1, 2, 3, 4] (float64 (7 / 10)) (float64 (3 * float64 (7 / 10))) = [3, 4, 1, 2] \<and>
   roll [1, 2, 3, 4 :: real] 3 = [2, 3, 4, 1] \<and>
   (\<exists>E. verificar_desplazamiento_tiempo [0, 1, 2, 3] [1, 2, 3, 4]
            (float64 (7 / 10)) (float64 (3 * float64 (7 / 10))) = Inr E \<and> 1 \<le> E)"
proof (intro conjI)
  let ?a = "3152519739159347 / 2 ^ 52 :: real" and ?b = "1182194902184755 / 2 ^ 49 :: real"
  let ?s = "[1, 2, 3, 4 :: real]"
  have "py_int (6755399441055743 / 2 ^ 51) = 2" by (simp add: py_int_def)
  then show sh: "senal_desplazada ?s (float64 (7 / 10)) (float64 (3 * float64 (7 / 10))) = [3, 4, 1, 2]"
    unfolding senal_desplazada_def f_070 f_210 f_q3 by (simp add: roll_def Let_def)
  show "roll ?s 3 = [2, 3, 4, 1]" by (simp add: roll_def Let_def)
  have sh': "senal_desplazada ?s ?a ?b = [3, 4, 1, 2]" using sh unfolding f_070 f_210 .
  let ?g = "\<lambda>k. cmod (dft (map complex_of_real (senal_desplazada ?s ?a ?b)) k * complex_of_real ?a
                 - exp (- (2 * \<i>) * of_real pi * of_real (bin_freq (length ?s) ?a k) * of_real ?b)
                   * (dft (map complex_of_real ?s) k * complex_of_real ?a))"
  have a0: "?a \<noteq> 0" by simp
  have v: "verificar_desplazamiento_tiempo [0, 1, 2, 3] ?s ?a ?b = Inr (Max (?g ` {..<length ?s}))"
    by (rule desplazamiento_value) (simp_all)
  have bf: "bin_freq (length ?s) ?a 2 = - 1 / (2 * ?a)" by (simp add: bin_freq_def)
  have ex: "- (2 * \<i>) * of_real pi * of_real (- 1 / (2 * ?a)) * of_real ?b
            = \<i> * complex_of_real (pi * (?b / ?a))"
    by (simp add: field_simps)
  have W: "exp (- (2 * \<i>) * of_real pi * of_real (bin_freq (length ?s) ?a 2) * of_real ?b)
           = cis (pi * (?b / ?a))"
    unfolding bf ex by (simp only: cis_conv_exp)
  have g2: "?g 2 = cmod (- 2 * complex_of_real ?a) * cmod (1 - cis (pi * (?b / ?a)))"
  proof -
    have "?g 2 = cmod (- 2 * complex_of_real ?a - cis (pi * (?b / ?a)) * (- 2 * complex_of_real ?a))"
      unfolding sh' W dft_1234_bin2 dft_3412_bin2 ..
    also have "- 2 * complex_of_real ?a - cis (pi * (?b / ?a)) * (- 2 * complex_of_real ?a)
               = (- 2 * complex_of_real ?a) * (1 - cis (pi * (?b / ?a)))"
      by (simp add: algebra_simps)
    finally show ?thesis by (simp only: norm_mult)
  qed
  have c: "cos (pi * (?b / ?a)) \<le> 0" by (rule cos_near_3pi) simp_all
  have n: "1 \<le> cmod (- 2 * complex_of_real ?a)"
  proof -
    have "cmod (- 2 * complex_of_real ?a) = 2 * ?a"
      by (simp only: norm_mult norm_minus_cancel norm_numeral norm_of_real) simp
    then show ?thesis by simp
  qed
  have "1 * 1 \<le> cmod (- 2 * complex_of_real ?a) * cmod (1 - cis (pi * (?b / ?a)))"
    using n one_minus_cis[OF c] by (intro mult_mono) simp_all
  then have "1 \<le> ?g 2" unfolding g2 by simp
  moreover have "?g 2 \<le> Max (?g ` {..<length ?s})" by (intro Max_ge) simp_all
  ultimately have "1 \<le> Max (?g ` {..<length ?s})" by linarith
  then show "\<exists>E. verificar_desplazamiento_tiempo [0, 1, 2, 3] ?s
            (float64 (7 / 10)) (float64 (3 * float64 (7 / 10))) = Inr E \<and> 1 \<le> E"
    unfolding f_070 f_210 using v by blast
qed

end
